theory Spec2Isabelle
  imports Main "HOL-Library.Finite_Map"
begin

section \<open>Strings as the C++ code uses them\<close>

text \<open>
  \<^verbatim>\<open>std::string\<close> is a byte string: \<^typ>\<open>string\<close>. \<^verbatim>\<open>std::string::npos\<close> is \<^term>\<open>None\<close>.
  \<^verbatim>\<open>s.find(c, pos)\<close> is the index of the first \<^verbatim>\<open>c\<close> at or after \<^verbatim>\<open>pos\<close>,
  \<^verbatim>\<open>s.rfind(c)\<close> the index of the last one. \<^verbatim>\<open>s.substr(pos, n)\<close> throws only when
  \<^verbatim>\<open>pos > s.size()\<close>; every call of the code below has \<^verbatim>\<open>pos \<le> s.size()\<close>, where it
  is \<^term>\<open>take n (drop pos s)\<close>.
\<close>

definition find_char :: "string \<Rightarrow> char \<Rightarrow> nat \<Rightarrow> nat option" where
  "find_char s c pos =
     (let r = drop pos s
      in if c \<in> set r then Some (pos + length (takeWhile (\<lambda>x. x \<noteq> c) r)) else None)"

definition rfind_char :: "string \<Rightarrow> char \<Rightarrow> nat option" where
  "rfind_char s c =
     (if c \<in> set s then Some (length s - 1 - length (takeWhile (\<lambda>x. x \<noteq> c) (rev s)))
      else None)"

definition substr :: "string \<Rightarrow> nat \<Rightarrow> nat \<Rightarrow> string" where
  "substr s pos n = take n (drop pos s)"

text \<open>\<^verbatim>\<open>boost::algorithm::to_lower_copy\<close> in the classic locale: only A..Z change.\<close>

definition to_lower_char :: "char \<Rightarrow> char" where
  "to_lower_char c =
     (let n = (of_char c :: nat) in if 65 \<le> n \<and> n \<le> 90 then char_of (n + 32) else c)"

definition to_lower_copy :: "string \<Rightarrow> string" where
  "to_lower_copy s = map to_lower_char s"

section \<open>Errors\<close>

text \<open>One constructor for each \<^verbatim>\<open>throw\<close> of the two source files.\<close>

datatype error =
    Uri_DigestNotFound
  | Uri_PathNotFound
  | Uri_NameNotPresent
  | Uri_InvalidFactoryFormat
  | Hash_UnsupportedType
  | Hash_InvalidSize
  | Auth_UnsupportedType
  | Auth_MissingOpenQuote
  | Auth_QuoteBeforeEq
  | Auth_MissingCloseQuote
  | Auth_MissingParams "string list"
  | Json_LogicError
  | No401Header
  | Manifest_DownloadFailed
  | Manifest_SizeMismatch
  | Manifest_SizeExceeds
  | Manifest_HashMismatch
  | Blob_OpenFailed
  | Blob_DownloadFailed
  | Blob_SizeMismatch
  | Blob_HashMismatch
  | Creds_Failed
  | Creds_Invalid
  | Token_Failed
  | Token_Invalid
  | Compose_Invalid
  | Run_InvalidTufMeta
  | Run_TargetNotFound
  | Run_FailedToRun
  | Run_DownloadFailed
  | Run_TargetNotRunning

section \<open>docker.cc: HashedDigest and Uri\<close>

text \<open>
  The members \<^verbatim>\<open>digest_\<close>, \<^verbatim>\<open>hash_\<close> and \<^verbatim>\<open>short_hash_\<close> (a name cannot end with an
  underscore here).
\<close>

record HashedDigest =
  digest_str :: string
  hash_str :: string
  short_hash_str :: string

definition HashedDigest_Type :: string where
  "HashedDigest_Type = ''sha256:''"

definition HashedDigest :: "string \<Rightarrow> error + HashedDigest" where
  "HashedDigest hash_digest =
     (let d = to_lower_copy hash_digest
      in if HashedDigest_Type \<noteq> substr d 0 (length HashedDigest_Type) then Inl Hash_UnsupportedType
         else let h = drop (length HashedDigest_Type) d
              in if 64 \<noteq> length h then Inl Hash_InvalidSize
                 else Inr \<lparr>digest_str = d, hash_str = h, short_hash_str = substr h 0 7\<rparr>)"

record Uri =
  digest :: HashedDigest
  app :: string
  factory :: string
  repo :: string
  registryHostname :: string

definition parseUri :: "string \<Rightarrow> bool \<Rightarrow> error + Uri" where
  "parseUri uri factory_app =
     (case find_char uri (CHR ''@'') 0 of
        None \<Rightarrow> Inl Uri_DigestNotFound
      | Some split_pos \<Rightarrow>
          let dg = drop (split_pos + 1) uri
          in (case find_char uri (CHR ''/'') 0 of
                None \<Rightarrow> Inl Uri_PathNotFound
              | Some name_pos_start \<Rightarrow>
                  if split_pos \<le> name_pos_start + 1 then Inl Uri_NameNotPresent
                  else
                    let registry_hostname = substr uri 0 name_pos_start;
                        name = substr uri (name_pos_start + 1) (split_pos - name_pos_start - 1);
                        fa = (case rfind_char name (CHR ''/'') of
                                Some app_pos_start \<Rightarrow>
                                  (substr name 0 app_pos_start,
                                   substr name (app_pos_start + 1) (length name - app_pos_start - 1))
                              | None \<Rightarrow> ([], substr name 0 (length name)))
                    in if factory_app \<and> (fst fa = [] \<or> find_char (fst fa) (CHR ''/'') 0 \<noteq> None)
                       then Inl Uri_InvalidFactoryFormat
                       else (case HashedDigest dg of
                               Inl e \<Rightarrow> Inl e
                             | Inr d \<Rightarrow>
                                 Inr \<lparr>digest = d, app = snd fa, factory = fst fa, repo = name,
                                      registryHostname = registry_hostname\<rparr>)))"

text \<open>
  The words of the spec, for comparison: a hexadecimal character, and the suffix of a uri
  after its last \<^verbatim>\<open>@\<close>.
\<close>

definition is_hex_char :: "char \<Rightarrow> bool" where
  "is_hex_char c \<longleftrightarrow> c \<in> set ''0123456789abcdefABCDEF''"

definition after_last_at :: "string \<Rightarrow> string option" where
  "after_last_at s = map_option (\<lambda>p. drop (p + 1) s) (rfind_char s (CHR ''@''))"

section \<open>docker.cc: the Bearer challenge\<close>

text \<open>
  \<^verbatim>\<open>boost::starts_with\<close>, \<^verbatim>\<open>std::string::rfind(str)\<close> and \<^verbatim>\<open>boost::trim\<close> (white space of
  the classic locale: the space and the bytes 9 to 13).
\<close>

definition starts_with :: "string \<Rightarrow> string \<Rightarrow> bool" where
  "starts_with s p \<longleftrightarrow> take (length p) s = p"

definition rfind_str :: "string \<Rightarrow> string \<Rightarrow> nat option" where
  "rfind_str s pat =
     (case filter (\<lambda>i. take (length pat) (drop i s) = pat) (rev [0..<Suc (length s)]) of
        [] \<Rightarrow> None
      | i # _ \<Rightarrow> Some i)"

definition is_space :: "char \<Rightarrow> bool" where
  "is_space c = (let n = (of_char c :: nat) in n = 32 \<or> (9 \<le> n \<and> n \<le> 13))"

definition trim :: "string \<Rightarrow> string" where
  "trim s = rev (dropWhile is_space (rev (dropWhile is_space s)))"

record BearerAuth =
  Realm :: string
  Service :: string
  Scope :: string

definition BearerAuth_Header :: string where
  "BearerAuth_Header = ''www-authenticate''"

definition BearerAuth_AuthType :: string where
  "BearerAuth_AuthType = ''bearer''"

text \<open>
  The \<^verbatim>\<open>while\<close> loop of the constructor (lines 96 to 130). \<^verbatim>\<open>param_begin_pos\<close> is
  \<^term>\<open>None\<close> once \<^verbatim>\<open>find(',')\<close> has returned \<^verbatim>\<open>npos\<close>; \<^verbatim>\<open>find('=', npos)\<close> is then
  \<^verbatim>\<open>npos\<close> and the loop ends. \<^verbatim>\<open>bearer_params\<close> is the \<^verbatim>\<open>unordered_map\<close>.
\<close>

function bearer_params_loop ::
  "string \<Rightarrow> nat option \<Rightarrow> (string \<rightharpoonup> string) \<Rightarrow> error + (string \<rightharpoonup> string)" where
  "bearer_params_loop bearer_val param_begin_pos bearer_params =
     (case param_begin_pos of
        None \<Rightarrow> Inr bearer_params
      | Some bp \<Rightarrow>
          (case find_char bearer_val (CHR ''='') bp of
             None \<Rightarrow> Inr bearer_params
           | Some param_eq_pos \<Rightarrow>
               (case find_char bearer_val (CHR 0x22) bp of
                  None \<Rightarrow> Inl Auth_MissingOpenQuote
                | Some param_value_beg_pos \<Rightarrow>
                    if param_eq_pos > param_value_beg_pos then Inl Auth_QuoteBeforeEq
                    else if \<exists>c \<in> set (substr bearer_val (param_eq_pos + 1)
                                           (param_value_beg_pos - param_eq_pos - 1)). c \<noteq> CHR '' ''
                    then Inl Auth_MissingOpenQuote
                    else
                      (case find_char bearer_val (CHR 0x22) (param_value_beg_pos + 1) of
                         None \<Rightarrow> Inl Auth_MissingCloseQuote
                       | Some param_value_end_pos \<Rightarrow>
                           bearer_params_loop bearer_val
                             (map_option Suc (find_char bearer_val (CHR '','') param_value_end_pos))
                             (bearer_params
                                (trim (substr bearer_val bp (param_eq_pos - bp)) \<mapsto>
                                 trim (substr bearer_val (param_value_beg_pos + 1)
                                         (param_value_end_pos - param_value_beg_pos - 1))))))))"
  by pat_completeness auto
termination
proof (relation "measure (\<lambda>(bv, pos, m). case pos of None \<Rightarrow> 0 | Some p \<Rightarrow> Suc (length bv - p))")
  show "wf (measure (\<lambda>(bv, pos, m). case pos of None \<Rightarrow> 0 | Some p \<Rightarrow> Suc (length bv - p)))"
    by simp
next
  fix bearer_val :: string and param_begin_pos :: "nat option" and bearer_params :: "string \<rightharpoonup> string"
    and bp eq vb ve
  let ?m = "\<lambda>(bv :: string, pos, m :: string \<rightharpoonup> string).
              case pos of None \<Rightarrow> 0 | Some p \<Rightarrow> Suc (length bv - p)"
  assume b: "param_begin_pos = Some bp"
    and q: "find_char bearer_val (CHR 0x22) bp = Some vb"
    and e: "find_char bearer_val (CHR 0x22) (vb + 1) = Some ve"
  have bound: "p \<le> i \<and> i < length s" if "find_char s c p = Some i" for s c p i
  proof -
    from that have m: "c \<in> set (drop p s)"
      and i: "i = p + length (takeWhile (\<lambda>x. x \<noteq> c) (drop p s))"
      by (auto simp: find_char_def Let_def split: if_splits)
    let ?r = "drop p s" and ?t = "takeWhile (\<lambda>x. x \<noteq> c) (drop p s)"
    from m have "?t \<noteq> ?r" by auto
    moreover have "?t = take (length ?t) ?r" by (rule takeWhile_eq_take)
    ultimately have "length ?t \<noteq> length ?r" by (metis take_all order_refl)
    moreover have "length ?t \<le> length ?r" by (rule length_takeWhile_le)
    ultimately have "length ?t < length (drop p s)" by simp
    with i show ?thesis by simp
  qed
  show "((bearer_val, map_option Suc (find_char bearer_val (CHR '','') ve),
          bearer_params(trim (substr bearer_val bp (eq - bp)) \<mapsto>
                        trim (substr bearer_val (vb + 1) (ve - vb - 1)))),
         (bearer_val, param_begin_pos, bearer_params)) \<in> measure ?m"
  proof (cases "find_char bearer_val (CHR '','') ve")
    case None
    then show ?thesis using b by simp
  next
    case (Some c)
    from bound[OF q] bound[OF e] bound[OF Some] have "bp \<le> c" "c < length bearer_val" by auto
    then show ?thesis using b Some by simp
  qed
qed

definition BearerAuth :: "string \<Rightarrow> error + BearerAuth" where
  "BearerAuth auth_header_value =
     (if \<not> starts_with auth_header_value BearerAuth_AuthType then Inl Auth_UnsupportedType
      else
        (case rfind_str auth_header_value BearerAuth_AuthType of
           None \<Rightarrow> Inl Auth_UnsupportedType
         | Some p \<Rightarrow>
             let bearer_val = trim (drop (p + length BearerAuth_AuthType) auth_header_value)
             in (case bearer_params_loop bearer_val (Some 0) Map.empty of
                   Inl e \<Rightarrow> Inl e
                 | Inr bearer_params \<Rightarrow>
                     let required_params = [''realm'', ''service'', ''scope''];
                         missing_params = filter (\<lambda>param. bearer_params param = None) required_params
                     in if missing_params \<noteq> [] then Inl (Auth_MissingParams missing_params)
                        else Inr \<lparr>Realm = the (bearer_params (required_params ! 0)),
                                  Service = the (bearer_params (required_params ! 1)),
                                  Scope = the (bearer_params (required_params ! 2))\<rparr>)))"

text \<open>
  Modelled from the spec: \<^verbatim>\<open>BearerAuth::uri()\<close> is declared in docker.h, which is not among
  the sources; the spec gives the token-endpoint URL as \<^verbatim>\<open>realm?service=...&scope=...\<close>.
\<close>

definition BearerAuth_uri :: "BearerAuth \<Rightarrow> string" where
  "BearerAuth_uri b = Realm b @ ''?service='' @ Service b @ ''&scope='' @ Scope b"

section \<open>JSON values and the HTTP transport\<close>

text \<open>
  A \<^verbatim>\<open>Json::Value\<close>. An object is a finite map (jsoncpp keeps one member per key).
  Reading \<^verbatim>\<open>v[key]\<close> and \<^verbatim>\<open>v[0]\<close> gives null for a missing member and throws
  \<^verbatim>\<open>Json::LogicError\<close> when \<^verbatim>\<open>v\<close> is neither null nor of the right kind;
  \<^verbatim>\<open>asString()\<close> throws on arrays and objects.
\<close>

datatype json =
    JNull
  | JString string
  | JNumber string
  | JBool bool
  | JArray "json list"
  | JObject "(string, json) fmap"

fun json_member :: "json \<Rightarrow> string \<Rightarrow> error + json" where
  "json_member JNull key = Inr JNull"
| "json_member (JObject m) key = Inr (case fmlookup m key of None \<Rightarrow> JNull | Some v \<Rightarrow> v)"
| "json_member _ key = Inl Json_LogicError"

fun json_index :: "json \<Rightarrow> nat \<Rightarrow> error + json" where
  "json_index JNull i = Inr JNull"
| "json_index (JArray xs) i = Inr (if i < length xs then xs ! i else JNull)"
| "json_index _ i = Inl Json_LogicError"

fun json_asString :: "json \<Rightarrow> error + string" where
  "json_asString JNull = Inr []"
| "json_asString (JString s) = Inr s"
| "json_asString (JNumber s) = Inr s"
| "json_asString (JBool b) = Inr (if b then ''true'' else ''false'')"
| "json_asString _ = Inl Json_LogicError"

definition json_member_asString :: "json \<Rightarrow> string \<Rightarrow> error + string" where
  "json_member_asString j key = (case json_member j key of Inl e \<Rightarrow> Inl e | Inr v \<Rightarrow> json_asString v)"

text \<open>
  \<^verbatim>\<open>HttpResponse(body, http_status_code, curl_code, error_message)\<close> as client.cc builds it,
  with the response headers the registry client reads. \<^verbatim>\<open>CURLE_OK\<close> is 0.
\<close>

record HttpResponse =
  body :: string
  http_status_code :: int
  curl_code :: nat
  error_message :: string
  headers :: "string \<rightharpoonup> string"

definition CURLE_OK :: nat where
  "CURLE_OK = 0"

text \<open>
  Modelled from the spec: \<^verbatim>\<open>HttpResponse::isOk()\<close> is declared outside the sources. The
  spec fails a call on any non-2xx status; a transfer that the transport aborted (a curl
  code other than \<^verbatim>\<open>CURLE_OK\<close>, which is what a write callback returning a wrong count
  causes) is a failure as well.
\<close>

definition isOk :: "HttpResponse \<Rightarrow> bool" where
  "isOk r \<longleftrightarrow> curl_code r = CURLE_OK \<and> 200 \<le> http_status_code r \<and> http_status_code r < 300"

text \<open>
  The requests the registry client makes: a \<^verbatim>\<open>get\<close> or a \<^verbatim>\<open>download\<close> on a client that
  \<^verbatim>\<open>http_client_factory_\<close> built for the given request headers, and a \<^verbatim>\<open>get\<close> on
  \<^verbatim>\<open>ota_lite_client_\<close>.
\<close>

datatype request =
    FactoryGet "string list" string int
  | FactoryDownload "string list" string
  | OtaLiteGet string int

text \<open>
  A download as the transport runs it: it ends with a response, or hands a chunk to the
  write callback and goes on according to the count the callback returns.
\<close>

datatype 'w download_run =
    Finished HttpResponse 'w
  | Deliver string "nat \<Rightarrow> 'w download_run"

text \<open>
  What the registry client is built from and what the libraries compute. The state
  \<^typ>\<open>'w\<close> is the state of the world behind the transports; the constants are those of
  docker.h.
\<close>

record 'w Env =
  http_get :: "request \<Rightarrow> 'w \<Rightarrow> HttpResponse \<times> 'w"
  http_download :: "request \<Rightarrow> 'w \<Rightarrow> 'w download_run"
  sha256digest :: "string \<Rightarrow> string"
  parseJSON :: "string \<Rightarrow> json"
  toBase64 :: "string \<Rightarrow> string"
  DefManifestMaxSize :: int
  AuthMaterialMaxSize :: int
  auth_creds_endpoint :: string

type_synonym 'w io = "'w \<times> request list"

definition do_get :: "'w Env \<Rightarrow> request \<Rightarrow> 'w io \<Rightarrow> HttpResponse \<times> 'w io" where
  "do_get env req io = (let (r, w') = http_get env req (fst io) in (r, (w', snd io @ [req])))"

text \<open>\<^verbatim>\<open>boost::algorithm::hex\<close>: two upper-case digits for each byte.\<close>

definition hex_digit :: "nat \<Rightarrow> char" where
  "hex_digit n = ''0123456789ABCDEF'' ! (n mod 16)"

definition hex :: "string \<Rightarrow> string" where
  "hex s = concat (map (\<lambda>c. [hex_digit ((of_char c :: nat) div 16), hex_digit (of_char c)]) s)"

text \<open>An \<^verbatim>\<open>int64_t\<close> compared with a \<^verbatim>\<open>size_t\<close> is converted to \<^verbatim>\<open>size_t\<close> first.\<close>

definition size_t_of :: "int \<Rightarrow> nat" where
  "size_t_of i = nat (i mod 2 ^ 64)"

section \<open>docker.cc: RegistryClient\<close>

definition ManifestEndpoint :: string where
  "ManifestEndpoint = ''/manifests/''"

definition BlobEndpoint :: string where
  "BlobEndpoint = ''/blobs/''"

definition SupportedRegistryVersion :: string where
  "SupportedRegistryVersion = ''/v2/''"

text \<open>
  Modelled from the spec: \<^verbatim>\<open>composeManifestUrl\<close> and \<^verbatim>\<open>composeBlobUrl\<close> are declared in
  docker.h; the spec gives \<^verbatim>\<open><base>/v2/<repo>/manifests/<digest>\<close> and
  \<^verbatim>\<open><base>/v2/<repo>/blobs/<digest>\<close>.
\<close>

definition composeManifestUrl :: "Uri \<Rightarrow> string" where
  "composeManifestUrl uri =
     ''https://'' @ registryHostname uri @ SupportedRegistryVersion @ repo uri @ ManifestEndpoint
       @ digest_str (digest uri)"

definition composeBlobUrl :: "Uri \<Rightarrow> string" where
  "composeBlobUrl uri =
     ''https://'' @ registryHostname uri @ SupportedRegistryVersion @ repo uri @ BlobEndpoint
       @ digest_str (digest uri)"

definition getBasicAuthHeader :: "'w Env \<Rightarrow> 'w io \<Rightarrow> (error + string) \<times> 'w io" where
  "getBasicAuthHeader env io =
     (let (creds_resp, io1) =
            do_get env (OtaLiteGet (auth_creds_endpoint env) (AuthMaterialMaxSize env)) io
      in if \<not> isOk creds_resp then (Inl Creds_Failed, io1)
         else
           (case json_member_asString (parseJSON env (body creds_resp)) ''Username'' of
              Inl e \<Rightarrow> (Inl e, io1)
            | Inr username \<Rightarrow>
                (case json_member_asString (parseJSON env (body creds_resp)) ''Secret'' of
                   Inl e \<Rightarrow> (Inl e, io1)
                 | Inr secret \<Rightarrow>
                     if username = [] \<or> secret = [] then (Inl Creds_Invalid, io1)
                     else (Inr (''authorization: basic '' @ toBase64 env (username @ CHR '':'' # secret)),
                           io1))))"

definition getBearerAuthHeader ::
  "'w Env \<Rightarrow> BearerAuth \<Rightarrow> 'w io \<Rightarrow> (error + string) \<times> 'w io" where
  "getBearerAuthHeader env bearer io =
     (case getBasicAuthHeader env io of
        (Inl e, io1) \<Rightarrow> (Inl e, io1)
      | (Inr basic, io1) \<Rightarrow>
          let (token_resp, io2) =
                do_get env (FactoryGet [basic] (BearerAuth_uri bearer) (AuthMaterialMaxSize env)) io1
          in if \<not> isOk token_resp then (Inl Token_Failed, io2)
             else
               (case json_member_asString (parseJSON env (body token_resp)) ''token'' of
                  Inl e \<Rightarrow> (Inl e, io2)
                | Inr token \<Rightarrow>
                    if token = [] then (Inl Token_Invalid, io2)
                    else (Inr (''authorization: bearer '' @ token), io2)))"

text \<open>Lines 184 to 211 of \<^verbatim>\<open>getAppManifest\<close>: the checks on the final response.\<close>

definition checkAppManifest ::
  "'w Env \<Rightarrow> Uri \<Rightarrow> int option \<Rightarrow> int \<Rightarrow> HttpResponse \<Rightarrow> error + string" where
  "checkAppManifest env uri manifest_size manifest_max_size manifest_resp =
     (if \<not> isOk manifest_resp then Inl Manifest_DownloadFailed
      else if (case manifest_size of
                 Some n \<Rightarrow> length (body manifest_resp) \<noteq> size_t_of n
               | None \<Rightarrow> False)
      then Inl Manifest_SizeMismatch
      else if (case manifest_size of
                 Some n \<Rightarrow> False
               | None \<Rightarrow> length (body manifest_resp) > size_t_of manifest_max_size)
      then Inl Manifest_SizeExceeds
      else if to_lower_copy (hex (sha256digest env (body manifest_resp))) \<noteq> hash_str (digest uri)
      then Inl Manifest_HashMismatch
      else Inr (body manifest_resp))"

definition getAppManifest ::
  "'w Env \<Rightarrow> Uri \<Rightarrow> string \<Rightarrow> int option \<Rightarrow> 'w io \<Rightarrow> (error + string) \<times> 'w io" where
  "getAppManifest env uri format manifest_size io =
     (let manifest_url = composeManifestUrl uri;
          registry_repo_request_headers = [''accept:'' @ format];
          manifest_max_size = (case manifest_size of Some n \<Rightarrow> n | None \<Rightarrow> DefManifestMaxSize env);
          (manifest_resp, io1) =
             do_get env (FactoryGet registry_repo_request_headers manifest_url manifest_max_size) io
      in if http_status_code manifest_resp = 401 then
           (case headers manifest_resp BearerAuth_Header of
              None \<Rightarrow> (Inl No401Header, io1)
            | Some auth_header_value \<Rightarrow>
                (case BearerAuth auth_header_value of
                   Inl e \<Rightarrow> (Inl e, io1)
                 | Inr bearer \<Rightarrow>
                     (case getBearerAuthHeader env bearer io1 of
                        (Inl e, io2) \<Rightarrow> (Inl e, io2)
                      | (Inr auth_header, io2) \<Rightarrow>
                          let (manifest_resp2, io3) =
                                do_get env
                                  (FactoryGet (registry_repo_request_headers @ [auth_header])
                                     manifest_url manifest_max_size) io2
                          in (checkAppManifest env uri manifest_size manifest_max_size manifest_resp2,
                              io3))))
         else (checkAppManifest env uri manifest_size manifest_max_size manifest_resp, io1))"

text \<open>
  The scenario of the spec for the retry: the challenge as the spec writes it, the same
  with the scheme in lower case, and a registry that answers 401 with a given challenge
  to a manifest request without token, the token \<^verbatim>\<open>T\<close> to the token request and 200 with
  the body \<^verbatim>\<open>{}\<close> to a manifest request with the token. The libraries are stand-ins: a
  digest of 32 zero bytes, a parser that knows the two bodies of the scenario, the
  identity for base64.
\<close>

definition challenge_Bearer :: string where
  \<open>challenge_Bearer = ''Bearer realm="https://x/t",service="s",scope="repository:r:pull"''\<close>

definition challenge_bearer :: string where
  \<open>challenge_bearer = ''bearer realm="https://x/t",service="s",scope="repository:r:pull"''\<close>

definition token_body :: string where
  \<open>token_body = ''{"token":"T"}''\<close>

definition creds_body :: string where
  \<open>creds_body = ''{"Secret":"secret","Username":"test-user"}''\<close>

definition scenario_uri :: Uri where
  "scenario_uri =
     \<lparr>digest = \<lparr>digest_str = ''sha256:0000000000000000000000000000000000000000000000000000000000000000'',
                hash_str = ''0000000000000000000000000000000000000000000000000000000000000000'',
                short_hash_str = ''0000000''\<rparr>,
      app = ''r'', factory = [], repo = ''r'', registryHostname = ''x''\<rparr>"

definition scenario_get :: "string \<Rightarrow> request \<Rightarrow> unit \<Rightarrow> HttpResponse \<times> unit" where
  "scenario_get challenge req w =
     (case req of
        FactoryGet request_headers url maxsize \<Rightarrow>
          if ''authorization: bearer T'' \<in> set request_headers
          then (\<lparr>body = ''{}'', http_status_code = 200, curl_code = CURLE_OK, error_message = [],
                  headers = Map.empty\<rparr>, w)
          else if url = ''https://x/t?service=s&scope=repository:r:pull''
          then (\<lparr>body = token_body, http_status_code = 200, curl_code = CURLE_OK,
                  error_message = [], headers = Map.empty\<rparr>, w)
          else (\<lparr>body = [], http_status_code = 401, curl_code = CURLE_OK, error_message = [],
                  headers = [''www-authenticate'' \<mapsto> challenge]\<rparr>, w)
      | FactoryDownload request_headers url \<Rightarrow>
          (\<lparr>body = [], http_status_code = 501, curl_code = CURLE_OK, error_message = [],
            headers = Map.empty\<rparr>, w)
      | OtaLiteGet url maxsize \<Rightarrow>
          (\<lparr>body = creds_body, http_status_code = 200, curl_code = CURLE_OK, error_message = [],
            headers = Map.empty\<rparr>, w))"

definition scenario_parseJSON :: "string \<Rightarrow> json" where
  "scenario_parseJSON s =
     (if s = token_body then JObject (fmupd ''token'' (JString ''T'') fmempty)
      else if s = creds_body
      then JObject (fmupd ''Secret'' (JString ''secret'') (fmupd ''Username'' (JString ''test-user'') fmempty))
      else JNull)"

definition scenario_env :: "string \<Rightarrow> unit Env" where
  "scenario_env challenge =
     \<lparr>http_get = scenario_get challenge,
      http_download = (\<lambda>req w. Finished (fst (scenario_get challenge req w)) w),
      sha256digest = (\<lambda>bytes. replicate 32 (CHR 0x00)),
      parseJSON = scenario_parseJSON,
      toBase64 = (\<lambda>s. s),
      DefManifestMaxSize = 1048576,
      AuthMaterialMaxSize = 1024,
      auth_creds_endpoint = ''https://ota-lite/hub-creds/''\<rparr>"

section \<open>docker.cc: the download context\<close>

text \<open>
  The sink. A \<^verbatim>\<open>DownloadCtx\<close> is built in one place, on the \<^verbatim>\<open>std::ofstream\<close> that
  \<^verbatim>\<open>downloadBlob\<close> opens (line 267): the sink is a file stream, with the buffer of its
  \<^verbatim>\<open>basic_filebuf\<close> between the program and the medium. The record has the bytes of the file
  on the medium, the position in the file where the buffer will go, the bytes in the
  buffer, whether \<^verbatim>\<open>failbit\<close> or \<^verbatim>\<open>badbit\<close> is set, and how many more bytes the medium takes.

  As libstdc++ has it, \<^verbatim>\<open>write\<close> copies a chunk into the buffer when the chunk is shorter
  than 1024 bytes and than what is left of the buffer (of \<^verbatim>\<open>BUFSIZ - 1\<close> characters), and
  the stream stays good whatever the state of the medium; any other chunk goes to the
  medium at once, after the bytes of the buffer, and \<^verbatim>\<open>badbit\<close> is set when the medium
  does not take them all. \<^verbatim>\<open>tellp\<close> counts the bytes in the buffer and returns -1 when
  \<^verbatim>\<open>fail()\<close> holds. \<^verbatim>\<open>seekp\<close> writes the buffer to the medium first and sets \<^verbatim>\<open>failbit\<close>
  when that fails. \<^verbatim>\<open>write\<close> and \<^verbatim>\<open>seekp\<close> do nothing on a failed stream.
\<close>

definition filebuf_chunk :: nat where
  "filebuf_chunk = 1024"

definition filebuf_capacity :: nat where
  "filebuf_capacity = 8191"

record ostream =
  os_data :: string
  os_pos :: nat
  os_buf :: string
  os_fail :: bool
  os_room :: nat

text \<open>
  Writing bytes to the medium at the position of the file: the bytes that replace bytes
  of the file always go, those that extend it as far as the medium has room.
\<close>

definition medium_takes :: "ostream \<Rightarrow> string \<Rightarrow> bool" where
  "medium_takes os bytes \<longleftrightarrow> length bytes \<le> length (os_data os) - os_pos os + os_room os"

definition medium_write :: "ostream \<Rightarrow> string \<Rightarrow> ostream" where
  "medium_write os bytes =
     (let k = min (length bytes) (length (os_data os) - os_pos os + os_room os)
      in os\<lparr>os_data := take (os_pos os) (os_data os) @ take k bytes
                        @ drop (os_pos os + k) (os_data os),
            os_pos := os_pos os + k,
            os_room := os_room os - (os_pos os + k - length (os_data os))\<rparr>)"

text \<open>The buffer goes to the medium; it is emptied when the medium has taken it all.\<close>

definition filebuf_flush :: "ostream \<Rightarrow> ostream" where
  "filebuf_flush os =
     (if medium_takes os (os_buf os) then (medium_write os (os_buf os))\<lparr>os_buf := []\<rparr>
      else medium_write os (os_buf os))"

definition ostream_good :: "ostream \<Rightarrow> bool" where
  "ostream_good os \<longleftrightarrow> \<not> os_fail os"

definition ostream_tellp :: "ostream \<Rightarrow> int" where
  "ostream_tellp os = (if os_fail os then - 1 else int (os_pos os + length (os_buf os)))"

definition ostream_write :: "ostream \<Rightarrow> string \<Rightarrow> ostream" where
  "ostream_write os bytes =
     (if os_fail os then os
      else if length bytes < min filebuf_chunk (filebuf_capacity - length (os_buf os))
      then os\<lparr>os_buf := os_buf os @ bytes\<rparr>
      else if medium_takes os (os_buf os @ bytes)
      then (medium_write os (os_buf os @ bytes))\<lparr>os_buf := []\<rparr>
      else (medium_write os (os_buf os @ bytes))\<lparr>os_fail := True\<rparr>)"

definition ostream_seekp :: "ostream \<Rightarrow> nat \<Rightarrow> ostream" where
  "ostream_seekp os p =
     (if os_fail os then os
      else if medium_takes os (os_buf os) then (filebuf_flush os)\<lparr>os_pos := p\<rparr>
      else (filebuf_flush os)\<lparr>os_fail := True\<rparr>)"

text \<open>
  \<^verbatim>\<open>DownloadCtx\<close>. The hasher is the bytes fed to it so far. \<^verbatim>\<open>size_t\<close> arithmetic wraps
  at \<open>2 ^ 64\<close>; the difference of two stream positions is a signed \<^verbatim>\<open>streamoff\<close>,
  converted to \<^verbatim>\<open>size_t\<close> where it is added and returned.
\<close>

record DownloadCtx =
  out_stream :: ostream
  hasher :: string
  expected_size :: nat
  written_size :: nat
  received_size :: nat

definition DownloadCtx_write :: "DownloadCtx \<Rightarrow> string \<Rightarrow> DownloadCtx \<times> nat" where
  "DownloadCtx_write ctx chunk =
     (let size = length chunk;
          ctx1 = ctx\<lparr>received_size := (written_size ctx + size) mod 2 ^ 64\<rparr>
      in if received_size ctx1 > expected_size ctx1 then (ctx1, (size + 1) mod 2 ^ 64)
         else if \<not> ostream_good (out_stream ctx1) then (ctx1, (size + 1) mod 2 ^ 64)
         else
           let start_pos = ostream_tellp (out_stream ctx1);
               os' = ostream_write (out_stream ctx1) chunk;
               end_pos = ostream_tellp os';
               d = size_t_of (end_pos - start_pos)
           in (ctx1\<lparr>out_stream := os',
                    written_size := (written_size ctx1 + d) mod 2 ^ 64,
                    hasher := hasher ctx1 @ chunk\<rparr>, d))"

text \<open>
  \<^verbatim>\<open>reset\<close> calls \<^verbatim>\<open>seekp(std::ios_base::beg)\<close>, with one argument: the position that the
  enumerator converts to, which is 0.
\<close>

definition DownloadCtx_reset :: "DownloadCtx \<Rightarrow> DownloadCtx" where
  "DownloadCtx_reset ctx =
     ctx\<lparr>out_stream := ostream_seekp (out_stream ctx) 0, hasher := [],
         written_size := 0, received_size := 0\<rparr>"

text \<open>Any sequence of invocations of the callback, one for each chunk.\<close>

fun write_chunks :: "DownloadCtx \<Rightarrow> string list \<Rightarrow> DownloadCtx" where
  "write_chunks ctx [] = ctx"
| "write_chunks ctx (chunk # chunks) = write_chunks (fst (DownloadCtx_write ctx chunk)) chunks"

text \<open>\<^verbatim>\<open>DownloadHandler\<close> is the callback of the transport: it calls \<^verbatim>\<open>write\<close>.\<close>

primrec run_download ::
  "'w download_run \<Rightarrow> DownloadCtx \<Rightarrow> (HttpResponse \<times> 'w) \<times> DownloadCtx" where
  "run_download (Finished r w) = (\<lambda>ctx. ((r, w), ctx))"
| "run_download (Deliver chunk k) =
     (\<lambda>ctx. run_download (k (snd (DownloadCtx_write ctx chunk))) (fst (DownloadCtx_write ctx chunk)))"

section \<open>docker.cc: downloadBlob\<close>

text \<open>
  The files, which paths can be opened for writing, and the room left on the medium.
  Opening an \<^verbatim>\<open>ofstream\<close> creates or truncates the file. Closing it, by \<^verbatim>\<open>close()\<close> or by
  the destructor when an exception leaves the function, writes the buffer to the medium,
  whatever the state of the stream; the file then holds what the medium has taken.
  \<^verbatim>\<open>close()\<close> sets \<^verbatim>\<open>failbit\<close> when that fails, which \<open>downloadBlob\<close> does not test.
\<close>

record filesystem =
  files :: "string \<rightharpoonup> string"
  can_open :: "string \<Rightarrow> bool"
  free_space :: nat

definition ofstream_open :: "filesystem \<Rightarrow> ostream" where
  "ofstream_open fs =
     \<lparr>os_data = [], os_pos = 0, os_buf = [], os_fail = False, os_room = free_space fs\<rparr>"

definition ofstream_close :: "filesystem \<Rightarrow> string \<Rightarrow> ostream \<Rightarrow> filesystem" where
  "ofstream_close fs filepath os =
     fs\<lparr>files := (files fs)(filepath \<mapsto> os_data (filebuf_flush os))\<rparr>"

definition std_remove :: "filesystem \<Rightarrow> string \<Rightarrow> filesystem" where
  "std_remove fs filepath = fs\<lparr>files := (files fs)(filepath := None)\<rparr>"

text \<open>
  Modelled from the spec: \<^verbatim>\<open>MultiPartSHA256Hasher::getHexDigest\<close> is declared outside the
  sources; the spec compares \<^verbatim>\<open>hex(hasher.digest())\<close> with the digest of the uri.
\<close>

definition getHexDigest :: "'w Env \<Rightarrow> string \<Rightarrow> string" where
  "getHexDigest env fed = hex (sha256digest env fed)"

definition doDownloadBlobRequest ::
  "'w Env \<Rightarrow> string list \<Rightarrow> string \<Rightarrow> DownloadCtx \<Rightarrow> 'w io \<Rightarrow> HttpResponse \<times> DownloadCtx \<times> 'w io" where
  "doDownloadBlobRequest env request_headers url ctx io =
     (let req = FactoryDownload request_headers url;
          res = run_download (http_download env req (fst io)) ctx
      in (fst (fst res), snd res, (snd (fst res), snd io @ [req])))"

text \<open>Lines 291 to 314 of \<^verbatim>\<open>downloadBlob\<close>: what follows the last request.\<close>

definition finishDownloadBlob ::
  "'w Env \<Rightarrow> Uri \<Rightarrow> string \<Rightarrow> nat \<Rightarrow> filesystem \<Rightarrow> DownloadCtx \<Rightarrow> HttpResponse
     \<Rightarrow> (error + unit) \<times> filesystem" where
  "finishDownloadBlob env uri filepath expected fs ctx get_blob_resp =
     (let closed = ofstream_close fs filepath (out_stream ctx)
      in if \<not> isOk get_blob_resp then (Inl Blob_DownloadFailed, closed)
         else if written_size ctx \<noteq> expected then (Inl Blob_SizeMismatch, std_remove closed filepath)
         else if to_lower_copy (getHexDigest env (hasher ctx)) \<noteq> hash_str (digest uri)
         then (Inl Blob_HashMismatch, std_remove closed filepath)
         else (Inr (), closed))"

definition downloadBlob ::
  "'w Env \<Rightarrow> Uri \<Rightarrow> string \<Rightarrow> nat \<Rightarrow> filesystem \<Rightarrow> 'w io
     \<Rightarrow> (error + unit) \<times> filesystem \<times> 'w io" where
  "downloadBlob env uri filepath expected fs io =
     (let compose_app_blob_url = composeBlobUrl uri
      in if \<not> can_open fs filepath then (Inl Blob_OpenFailed, fs, io)
         else
           let download_ctx = \<lparr>out_stream = ofstream_open fs, hasher = [], expected_size = expected,
                                 written_size = 0, received_size = 0\<rparr>;
               (get_blob_resp, ctx1, io1) = doDownloadBlobRequest env [] compose_app_blob_url download_ctx io
           in if http_status_code get_blob_resp = 401 then
                (case headers get_blob_resp BearerAuth_Header of
                   None \<Rightarrow> (Inl No401Header, ofstream_close fs filepath (out_stream ctx1), io1)
                 | Some auth_header_value \<Rightarrow>
                     (case BearerAuth auth_header_value of
                        Inl e \<Rightarrow> (Inl e, ofstream_close fs filepath (out_stream ctx1), io1)
                      | Inr bearer \<Rightarrow>
                          (case getBearerAuthHeader env bearer io1 of
                             (Inl e, io2) \<Rightarrow> (Inl e, ofstream_close fs filepath (out_stream ctx1), io2)
                           | (Inr auth_header, io2) \<Rightarrow>
                               let (get_blob_resp2, ctx3, io3) =
                                     doDownloadBlobRequest env [auth_header] compose_app_blob_url
                                       (DownloadCtx_reset ctx1) io2;
                                   fin = finishDownloadBlob env uri filepath expected fs ctx3 get_blob_resp2
                               in (fst fin, snd fin, io3))))
              else
                let fin = finishDownloadBlob env uri filepath expected fs ctx1 get_blob_resp
                in (fst fin, snd fin, io1))"

text \<open>
  Transports for \<open>downloadBlob\<close>. The registry of the scenario above answers a
  download as \<^verbatim>\<open>BaseHttpClient::download\<close> of client.cc does: 501, nothing delivered. The
  other one delivers one chunk of 3 bytes and, as curl does, fails the transfer with
  \<^verbatim>\<open>CURLE_WRITE_ERROR\<close> (23) when the callback returns another count. The disk is empty.
\<close>

definition oversize_env :: "unit Env" where
  "oversize_env =
     (scenario_env challenge_bearer)
       \<lparr>http_download := (\<lambda>req w.
          Deliver ''abc'' (\<lambda>accepted.
            Finished \<lparr>body = [], http_status_code = 200,
                      curl_code = (if accepted = 3 then CURLE_OK else 23),
                      error_message = [], headers = Map.empty\<rparr> w))\<rparr>"

definition empty_disk :: filesystem where
  "empty_disk = \<lparr>files = Map.empty, can_open = (\<lambda>path. True), free_space = 100\<rparr>"

text \<open>
  A third transport: it delivers one byte and then loses the connection, which curl
  reports as \<^verbatim>\<open>CURLE_PARTIAL_FILE\<close> (18).
\<close>

definition dropped_env :: "unit Env" where
  "dropped_env =
     (scenario_env challenge_bearer)
       \<lparr>http_download := (\<lambda>req w.
          Deliver ''a'' (\<lambda>accepted.
            Finished \<lparr>body = [], http_status_code = 200,
                      curl_code = (if accepted = 1 then 18 else 23),
                      error_message = [], headers = Map.empty\<rparr> w))\<rparr>"

text \<open>
  A medium that is full, and a transport that delivers a blob of two bytes in one chunk
  and ends the transfer with 200.
\<close>

definition full_disk :: filesystem where
  "full_disk = \<lparr>files = Map.empty, can_open = (\<lambda>path. True), free_space = 0\<rparr>"

definition small_blob_env :: "unit Env" where
  "small_blob_env =
     (scenario_env challenge_bearer)
       \<lparr>http_download := (\<lambda>req w.
          Deliver ''ab'' (\<lambda>accepted.
            Finished \<lparr>body = [], http_status_code = 200,
                      curl_code = (if accepted = 2 then CURLE_OK else 23),
                      error_message = [], headers = Map.empty\<rparr> w))\<rparr>"

section \<open>client.cc: the target selector\<close>

text \<open>
  The view of a \<^verbatim>\<open>Uptane::Target\<close> the selector reads. \<^verbatim>\<open>apps\<close> is the object under
  \<^verbatim>\<open>custom.docker_compose_apps\<close>, as \<^verbatim>\<open>Target::Apps\<close> enumerates it: the name and the uri of
  each app. \<^verbatim>\<open>Target::Unknown()\<close> is \<^term>\<open>None\<close>.
\<close>

record Target =
  filename :: string
  sha256Hash :: string
  hardwareIds :: "string list"
  custom_version :: string
  apps :: "(string \<times> string) list"

text \<open>
  The update source: the target name, what \<^verbatim>\<open>getRefs()\<close> reads in \<^verbatim>\<open>OstreeRepoDir\<close> (each
  ref with its commit) and the tree under \<^verbatim>\<open>AppsDir/apps\<close>: each app directory with its
  version directories, each with the content of its \<^verbatim>\<open>uri\<close> file.
\<close>

record UpdateSrc =
  TargetName :: string
  OstreeRepoDir :: "(string \<times> string) list"
  AppsDir :: "(string \<times> (string \<times> string) list) list"

definition getSpecificTarget :: "Target list \<Rightarrow> string \<Rightarrow> Target option" where
  "getSpecificTarget allTargets target_name = List.find (\<lambda>target. target_name = filename target) allTargets"

definition parseUpdateContent :: "UpdateSrc \<Rightarrow> string list \<times> string list" where
  "parseUpdateContent src =
     (map snd (OstreeRepoDir src), concat (map (\<lambda>app_dir_entry. map snd (snd app_dir_entry)) (AppsDir src)))"

text \<open>
  \<^verbatim>\<open>strverscmp\<close> is libc's: the comparison is a parameter \<open>vercmp\<close>. A \<^verbatim>\<open>std::set\<close> with
  the comparator \<open>lt\<close> is the list of its elements in order; \<^verbatim>\<open>insert\<close> keeps the
  element already there when neither is before the other.
\<close>

definition target_sort :: "(string \<Rightarrow> string \<Rightarrow> int) \<Rightarrow> Target \<Rightarrow> Target \<Rightarrow> bool" where
  "target_sort vercmp t1 t2 \<longleftrightarrow> vercmp (custom_version t1) (custom_version t2) > 0"

fun set_insert :: "('a \<Rightarrow> 'a \<Rightarrow> bool) \<Rightarrow> 'a \<Rightarrow> 'a list \<Rightarrow> 'a list" where
  "set_insert lt t [] = [t]"
| "set_insert lt t (x # xs) =
     (if lt t x then t # x # xs
      else if lt x t then x # set_insert lt t xs
      else x # xs)"

definition available_targets ::
  "(string \<Rightarrow> string \<Rightarrow> int) \<Rightarrow> string \<Rightarrow> Target list \<Rightarrow> Target list" where
  "available_targets vercmp hw_id allTargets =
     foldl (\<lambda>available target.
              if length (hardwareIds target) \<noteq> 1 then available
              else if hw_id \<noteq> hardwareIds target ! 0 then available
              else set_insert (target_sort vercmp) target available)
       [] allTargets"

text \<open>
  The loop over \<^verbatim>\<open>Target::Apps(t)\<close> (lines 261 to 273), with \<^verbatim>\<open>found_but_not_target_apps\<close>
  and \<^verbatim>\<open>shortlisted_target_apps\<close> as it leaves them.
\<close>

fun match_apps ::
  "(string \<times> string) list \<Rightarrow> string list \<Rightarrow> string list \<Rightarrow> (string \<times> string) list
     \<Rightarrow> string list \<times> (string \<times> string) list" where
  "match_apps [] found_apps found_but_not_target_apps shortlisted_target_apps =
     (found_but_not_target_apps, shortlisted_target_apps)"
| "match_apps (a # rest) found_apps found_but_not_target_apps shortlisted_target_apps =
     (if found_but_not_target_apps = [] then (found_but_not_target_apps, shortlisted_target_apps)
      else if snd a \<notin> set found_apps
      then match_apps rest found_apps found_but_not_target_apps
             (filter (\<lambda>member. fst member \<noteq> fst a) shortlisted_target_apps)
      else match_apps rest found_apps (removeAll (snd a) found_but_not_target_apps)
             shortlisted_target_apps)"

fun find_target :: "Target list \<Rightarrow> string list \<Rightarrow> string list \<Rightarrow> Target option" where
  "find_target [] found_ostree_commits found_apps = None"
| "find_target (t # ts) found_ostree_commits found_apps =
     (if sha256Hash t \<notin> set found_ostree_commits then find_target ts found_ostree_commits found_apps
      else
        let res = match_apps (apps t) found_apps found_apps (apps t)
        in if fst res = [] then Some (t\<lparr>apps := snd res\<rparr>)
           else find_target ts found_ostree_commits found_apps)"

definition getTarget ::
  "(string \<Rightarrow> string \<Rightarrow> int) \<Rightarrow> string \<Rightarrow> Target list \<Rightarrow> UpdateSrc \<Rightarrow> Target option" where
  "getTarget vercmp hw_id allTargets src =
     (if TargetName src \<noteq> [] then getSpecificTarget allTargets (TargetName src)
      else
        let content = parseUpdateContent src
        in find_target (available_targets vercmp hw_id allTargets) (fst content) (snd content))"

text \<open>
  The selector as the spec words it, for comparison: a target is a candidate when it has
  exactly one hardware id, the device's; a candidate matches when its commit is among the
  refs and every app uri of the medium is the uri of one of its apps; its shortlist is its
  apps whose uri is on the medium.
\<close>

definition spec_candidate :: "string \<Rightarrow> Target \<Rightarrow> bool" where
  "spec_candidate hw_id t \<longleftrightarrow> hardwareIds t = [hw_id]"

definition spec_matches :: "UpdateSrc \<Rightarrow> Target \<Rightarrow> bool" where
  "spec_matches src t \<longleftrightarrow>
     sha256Hash t \<in> set (fst (parseUpdateContent src)) \<and>
     set (snd (parseUpdateContent src)) \<subseteq> snd ` set (apps t)"

definition spec_shortlist :: "UpdateSrc \<Rightarrow> Target \<Rightarrow> (string \<times> string) list" where
  "spec_shortlist src t = filter (\<lambda>a. snd a \<in> set (snd (parseUpdateContent src))) (apps t)"

text \<open>What \<^verbatim>\<open>std::set\<close> asks of its comparator: a strict weak order.\<close>

definition strict_weak_order :: "('a \<Rightarrow> 'a \<Rightarrow> bool) \<Rightarrow> bool" where
  "strict_weak_order lt \<longleftrightarrow>
     (\<forall>a. \<not> lt a a) \<and>
     (\<forall>a b c. lt a b \<and> lt b c \<longrightarrow> lt a c) \<and>
     (\<forall>a b c. \<not> lt a b \<and> \<not> lt b a \<and> \<not> lt b c \<and> \<not> lt c b \<longrightarrow> \<not> lt a c \<and> \<not> lt c a)"

text \<open>
  A stand-in for \<^verbatim>\<open>strverscmp\<close> on the versions the examples use, decimal numbers without
  leading zeros: the sign of the difference of the numbers.
\<close>

definition decimal_value :: "string \<Rightarrow> nat" where
  "decimal_value v = foldl (\<lambda>n c. 10 * n + (of_char c - 48)) 0 v"

definition vercmp_decimal :: "string \<Rightarrow> string \<Rightarrow> int" where
  "vercmp_decimal v1 v2 = int (decimal_value v1) - int (decimal_value v2)"

text \<open>
  What the walk over the candidates asks of a candidate, and the first target of the
  signed list, among those with the device's hardware id alone, whose version compares
  equal with that of \<open>c\<close>.
\<close>

definition accepts :: "string list \<Rightarrow> string list \<Rightarrow> Target \<Rightarrow> bool" where
  "accepts commits found t \<longleftrightarrow> sha256Hash t \<in> set commits \<and> set found \<subseteq> snd ` set (apps t)"

definition first_of_version ::
  "(string \<Rightarrow> string \<Rightarrow> int) \<Rightarrow> string \<Rightarrow> Target list \<Rightarrow> Target \<Rightarrow> Target option" where
  "first_of_version vercmp hw_id ts c =
     List.find (\<lambda>t. hardwareIds t = [hw_id] \<and> \<not> target_sort vercmp t c \<and> \<not> target_sort vercmp c t) ts"

text \<open>
  Scenario 5 of the spec: the medium has the ostree ref \<^verbatim>\<open>C1\<close> and the app \<^verbatim>\<open>A@d1\<close>; the
  targets are \<^verbatim>\<open>T1\<close> with the commit \<^verbatim>\<open>C0\<close> and the app \<^verbatim>\<open>A\<close>, and \<^verbatim>\<open>T2\<close> with the commit
  \<^verbatim>\<open>C1\<close> and the apps \<^verbatim>\<open>A\<close> and \<^verbatim>\<open>B\<close>.
\<close>

definition scenario5_T1 :: Target where
  "scenario5_T1 =
     \<lparr>filename = ''T1'', sha256Hash = ''C0'', hardwareIds = [''hw''], custom_version = ''1'',
      apps = [(''A'', ''A@d1'')]\<rparr>"

definition scenario5_T2 :: Target where
  "scenario5_T2 =
     \<lparr>filename = ''T2'', sha256Hash = ''C1'', hardwareIds = [''hw''], custom_version = ''2'',
      apps = [(''A'', ''A@d1''), (''B'', ''B@d2'')]\<rparr>"

definition scenario5_src :: UpdateSrc where
  "scenario5_src =
     \<lparr>TargetName = [], OstreeRepoDir = [(''main'', ''C1'')], AppsDir = [(''A'', [(''d1'', ''A@d1'')])]\<rparr>"

section \<open>client.cc: run\<close>

text \<open>
  The \<^verbatim>\<open>LiteClient\<close> that \<^verbatim>\<open>createOfflineClient\<close> builds, as the operations \<^verbatim>\<open>run\<close> calls on
  it, over the state \<^typ>\<open>'c\<close> of the client and the device; \<^typ>\<open>'rc\<close> is
  \<^verbatim>\<open>data::ResultCode::Numeric\<close>.
\<close>

record ('c, 'rc) LiteClient =
  checkImageMetaOffline :: "'c \<Rightarrow> bool \<times> 'c"
  allTargets :: "'c \<Rightarrow> Target list"
  primary_ecu_hw_id :: "'c \<Rightarrow> string"
  getCurrent_sha256Hash :: "'c \<Rightarrow> string"
  finalizeInstall :: "'c \<Rightarrow> bool \<times> 'c"
  download :: "Target \<Rightarrow> string \<Rightarrow> 'c \<Rightarrow> bool \<times> 'c"
  install :: "Target \<Rightarrow> 'c \<Rightarrow> 'rc \<times> 'c"
  isTargetActive :: "Target \<Rightarrow> 'c \<Rightarrow> bool"

definition run ::
  "('c, 'rc) LiteClient \<Rightarrow> (string \<Rightarrow> string \<Rightarrow> int) \<Rightarrow> UpdateSrc \<Rightarrow> 'c \<Rightarrow> (error + unit) \<times> 'c" where
  "run client vercmp src c0 =
     (let (meta_ok, c1) = checkImageMetaOffline client c0
      in if \<not> meta_ok then (Inl Run_InvalidTufMeta, c1)
         else
           (case getTarget vercmp (primary_ecu_hw_id client c1) (allTargets client c1) src of
              None \<Rightarrow> (Inl Run_TargetNotFound, c1)
            | Some target \<Rightarrow>
                let (err, c3) =
                      (if getCurrent_sha256Hash client c1 \<noteq> sha256Hash target then
                         (let (finalized, c2) = finalizeInstall client c1
                          in (if \<not> finalized then Some Run_FailedToRun else None, c2))
                       else
                         (let (download_res, c2) =
                                download client target (''offline update of '' @ filename target) c1
                          in if \<not> download_res then (Some Run_DownloadFailed, c2)
                             else (None, snd (install client target c2))))
                in (case err of
                      Some e \<Rightarrow> (Inl e, c3)
                    | None \<Rightarrow>
                        if \<not> isTargetActive client target c3 then (Inl Run_TargetNotRunning, c3)
                        else (Inr (), c3))))"

section \<open>client.cc: registerApps\<close>

text \<open>
  The app store as \<^verbatim>\<open>registerApps\<close> reads it: which directories exist, the image of each
  service of a compose file (\<^term>\<open>None\<close> when \<^verbatim>\<open>ComposeInfo\<close> throws) and what
  \<^verbatim>\<open>Utils::parseJSONFile\<close> reads from a file. A path only names a file here;
  \<^verbatim>\<open>operator/\<close> of \<^verbatim>\<open>boost::filesystem::path\<close> adds a separator unless the appended part
  starts with one.
\<close>

record AppStore =
  dir_exists :: "string \<Rightarrow> bool"
  compose_images :: "string \<Rightarrow> string list option"
  json_files :: "string \<Rightarrow> json"

definition path_append :: "string \<Rightarrow> string \<Rightarrow> string" where
  "path_append a b = (if take 1 b = ''/'' then a @ b else a @ ''/'' @ b)"

text \<open>
  Modelled from the spec: \<^verbatim>\<open>Docker::RestorableAppEngine::ComposeFile\<close> is declared outside
  the sources; the spec names the file \<^verbatim>\<open>docker-compose.yml\<close>.
\<close>

definition ComposeFile :: string where
  "ComposeFile = ''docker-compose.yml''"

definition ebind :: "error + 'a \<Rightarrow> ('a \<Rightarrow> error + 'b) \<Rightarrow> error + 'b" where
  "ebind m f = (case m of Inl e \<Rightarrow> Inl e | Inr x \<Rightarrow> f x)"

text \<open>
  \<^verbatim>\<open>v[key]\<close> on a \<^verbatim>\<open>Json::Value\<close> that is not const: a null \<^verbatim>\<open>v\<close> becomes an empty object,
  a missing member is added as null, anything but null or an object throws. The result
  is the members of \<^verbatim>\<open>v\<close> and the member the reference is to. \<open>json_assign3\<close> is
  \<^verbatim>\<open>j[k1][k2][k3] = v\<close>.
\<close>

fun json_resolve :: "json \<Rightarrow> string \<Rightarrow> error + ((string, json) fmap \<times> json)" where
  "json_resolve JNull key = Inr (fmempty, JNull)"
| "json_resolve (JObject m) key = Inr (m, case fmlookup m key of None \<Rightarrow> JNull | Some v \<Rightarrow> v)"
| "json_resolve _ key = Inl Json_LogicError"

definition json_assign3 :: "json \<Rightarrow> string \<Rightarrow> string \<Rightarrow> string \<Rightarrow> json \<Rightarrow> error + json" where
  "json_assign3 j k1 k2 k3 v =
     ebind (json_resolve j k1) (\<lambda>r1.
     ebind (json_resolve (snd r1) k2) (\<lambda>r2.
     ebind (json_resolve (snd r2) k3) (\<lambda>r3.
       Inr (JObject (fmupd k1 (JObject (fmupd k2 (JObject (fmupd k3 v (fst r3))) (fst r2))) (fst r1))))))"

text \<open>The loop over the services of one app (lines 307 to 325).\<close>

fun register_services ::
  "AppStore \<Rightarrow> string \<Rightarrow> string \<Rightarrow> string list \<Rightarrow> json \<Rightarrow> error + json" where
  "register_services store apps_store_root app_dir [] repositories = Inr repositories"
| "register_services store apps_store_root app_dir (image_uri_str # services) repositories =
     ebind (parseUri image_uri_str False) (\<lambda>image_uri.
       let image_index_path =
             path_append (path_append (path_append (path_append (path_append app_dir ''images'')
               (registryHostname image_uri)) (repo image_uri)) (hash_str (digest image_uri)))
               ''index.json'';
           image_index = json_files store image_index_path
       in ebind (ebind (ebind (ebind (json_member image_index ''manifests'') (\<lambda>ms. json_index ms 0))
                    (\<lambda>m. json_member m ''digest'')) json_asString) (\<lambda>manifest_digest_str.
          ebind (HashedDigest manifest_digest_str) (\<lambda>manifest_digest.
            let image_manifest_path =
                  path_append (path_append apps_store_root ''blobs/sha256'') (hash_str manifest_digest);
                image_manifest = json_files store image_manifest_path
            in ebind (ebind (ebind (json_member image_manifest ''config'') (\<lambda>c. json_member c ''digest''))
                        json_asString) (\<lambda>config_digest_str.
               ebind (HashedDigest config_digest_str) (\<lambda>config_digest.
                 let image_repo = registryHostname image_uri @ ''/'' @ repo image_uri
                 in ebind (json_assign3 repositories ''Repositories'' image_repo image_uri_str
                             (JString (digest_str config_digest)))
                      (\<lambda>repositories'.
                         register_services store apps_store_root app_dir services repositories'))))))"

text \<open>
  The loop over \<^verbatim>\<open>Target::Apps(target)\<close> (lines 297 to 326). \<^verbatim>\<open>parseUri(app.uri)\<close> takes the
  default of \<^verbatim>\<open>factory_app\<close>, which docker.h declares: the parameter \<open>factory_app_default\<close>.
\<close>

fun register_apps ::
  "AppStore \<Rightarrow> bool \<Rightarrow> string \<Rightarrow> (string \<times> string) list \<Rightarrow> json \<Rightarrow> error + json" where
  "register_apps store factory_app_default apps_store_root [] repositories = Inr repositories"
| "register_apps store factory_app_default apps_store_root (a # rest) repositories =
     ebind (parseUri (snd a) factory_app_default) (\<lambda>app_uri.
       let app_dir = path_append (path_append (path_append apps_store_root ''apps'') (app app_uri))
                       (hash_str (digest app_uri))
       in if \<not> dir_exists store app_dir
          then register_apps store factory_app_default apps_store_root rest repositories
          else
            (case compose_images store (path_append app_dir ComposeFile) of
               None \<Rightarrow> Inl Compose_Invalid
             | Some services \<Rightarrow>
                 ebind (register_services store apps_store_root app_dir services repositories)
                   (\<lambda>repositories'.
                      register_apps store factory_app_default apps_store_root rest repositories')))"

text \<open>
  \<^verbatim>\<open>registerApps\<close>, on the content of the repositories index file
  \<^verbatim>\<open><docker_root>/image/overlay2/repositories.json\<close> (\<^term>\<open>None\<close> when the file does not
  exist). The content is of type \<^typ>\<open>'f\<close>, bytes in the program; \<open>read_json\<close> is
  \<^verbatim>\<open>Utils::parseJSONFile\<close> on it and \<open>write_json\<close> what \<^verbatim>\<open>Utils::writeFile\<close> writes for
  a \<^verbatim>\<open>Json::Value\<close>. \<^verbatim>\<open>{"Repositories":{}}\<close> parses to an object with one member, an empty
  object.
\<close>

definition registerApps ::
  "('f \<Rightarrow> json) \<Rightarrow> (json \<Rightarrow> 'f) \<Rightarrow> AppStore \<Rightarrow> bool \<Rightarrow> Target \<Rightarrow> string \<Rightarrow> 'f option
     \<Rightarrow> (error + unit) \<times> 'f option" where
  "registerApps read_json write_json store factory_app_default target apps_store_root repositories_file =
     (let repositories =
            (case repositories_file of
               Some content \<Rightarrow> read_json content
             | None \<Rightarrow> JObject (fmupd ''Repositories'' (JObject fmempty) fmempty))
      in (case register_apps store factory_app_default apps_store_root (apps target) repositories of
            Inl e \<Rightarrow> (Inl e, repositories_file)
          | Inr repositories' \<Rightarrow> (Inr (), Some (write_json repositories'))))"

text \<open>
  For the proofs: the members of a value that \<^verbatim>\<open>v[key]\<close> can index (null counts as an
  empty object), the member under a key (null when missing), a sequence of assignments
  \<^verbatim>\<open>repositories["Repositories"][repo][reference] = digest\<close>, and the assignment that one
  service of a compose file leads to (lines 308 to 323).
\<close>

definition json_members :: "json \<Rightarrow> (string, json) fmap option" where
  "json_members j = (case j of JNull \<Rightarrow> Some fmempty | JObject m \<Rightarrow> Some m | _ \<Rightarrow> None)"

definition json_lookup :: "(string, json) fmap \<Rightarrow> string \<Rightarrow> json" where
  "json_lookup m key = (case fmlookup m key of None \<Rightarrow> JNull | Some v \<Rightarrow> v)"

fun assign_all :: "(string \<times> string \<times> string) list \<Rightarrow> json \<Rightarrow> error + json" where
  "assign_all [] j = Inr j"
| "assign_all (e # es) j =
     ebind (json_assign3 j ''Repositories'' (fst e) (fst (snd e)) (JString (snd (snd e)))) (assign_all es)"

abbreviation (input) assign1 :: "string \<times> string \<times> string \<Rightarrow> json \<Rightarrow> error + json" where
  "assign1 e j \<equiv> json_assign3 j ''Repositories'' (fst e) (fst (snd e)) (JString (snd (snd e)))"

abbreviation (input) entry_key :: "string \<times> string \<times> string \<Rightarrow> string \<times> string" where
  "entry_key e \<equiv> (fst e, fst (snd e))"

definition service_entry ::
  "AppStore \<Rightarrow> string \<Rightarrow> string \<Rightarrow> string \<Rightarrow> error + (string \<times> string \<times> string)" where
  "service_entry store apps_store_root app_dir image_uri_str =
     ebind (parseUri image_uri_str False) (\<lambda>image_uri.
       let image_index_path =
             path_append (path_append (path_append (path_append (path_append app_dir ''images'')
               (registryHostname image_uri)) (repo image_uri)) (hash_str (digest image_uri)))
               ''index.json'';
           image_index = json_files store image_index_path
       in ebind (ebind (ebind (ebind (json_member image_index ''manifests'') (\<lambda>ms. json_index ms 0))
                    (\<lambda>m. json_member m ''digest'')) json_asString) (\<lambda>manifest_digest_str.
          ebind (HashedDigest manifest_digest_str) (\<lambda>manifest_digest.
            let image_manifest_path =
                  path_append (path_append apps_store_root ''blobs/sha256'') (hash_str manifest_digest);
                image_manifest = json_files store image_manifest_path
            in ebind (ebind (ebind (json_member image_manifest ''config'') (\<lambda>c. json_member c ''digest''))
                        json_asString) (\<lambda>config_digest_str.
               ebind (HashedDigest config_digest_str) (\<lambda>config_digest.
                 Inr (registryHostname image_uri @ ''/'' @ repo image_uri, image_uri_str,
                      digest_str config_digest))))))"

text \<open>
  Scenario 6 of the spec: one app with one service, the image \<^verbatim>\<open>h/r@sha256:11...\<close>, whose
  index names the manifest \<^verbatim>\<open>sha256:bb...\<close>, whose config is \<^verbatim>\<open>sha256:cc...\<close>; and the
  repositories index expected.
\<close>

definition scenario6_target :: Target where
  "scenario6_target =
     \<lparr>filename = ''T'', sha256Hash = ''C1'', hardwareIds = [''hw''], custom_version = ''1'',
      apps = [(''app'', ''hub/f/app@sha256:aaaaaaaaaaaaaaaaaaaaaaaaaaaaaaaaaaaaaaaaaaaaaaaaaaaaaaaaaaaaaaaa'')]\<rparr>"

definition scenario6_store :: AppStore where
  "scenario6_store =
     \<lparr>dir_exists = (\<lambda>path.
        path = ''/store/apps/app/aaaaaaaaaaaaaaaaaaaaaaaaaaaaaaaaaaaaaaaaaaaaaaaaaaaaaaaaaaaaaaaa''),
      compose_images = (\<lambda>path.
        if path = ''/store/apps/app/aaaaaaaaaaaaaaaaaaaaaaaaaaaaaaaaaaaaaaaaaaaaaaaaaaaaaaaaaaaaaaaa/docker-compose.yml''
        then Some [''h/r@sha256:1111111111111111111111111111111111111111111111111111111111111111'']
        else None),
      json_files = (\<lambda>path.
        if path = ''/store/apps/app/aaaaaaaaaaaaaaaaaaaaaaaaaaaaaaaaaaaaaaaaaaaaaaaaaaaaaaaaaaaaaaaa/images/h/r/1111111111111111111111111111111111111111111111111111111111111111/index.json''
        then JObject (fmupd ''manifests''
               (JArray [JObject (fmupd ''digest''
                  (JString ''sha256:bbbbbbbbbbbbbbbbbbbbbbbbbbbbbbbbbbbbbbbbbbbbbbbbbbbbbbbbbbbbbbbb'') fmempty)])
               fmempty)
        else if path = ''/store/blobs/sha256/bbbbbbbbbbbbbbbbbbbbbbbbbbbbbbbbbbbbbbbbbbbbbbbbbbbbbbbbbbbbbbbb''
        then JObject (fmupd ''config''
               (JObject (fmupd ''digest''
                  (JString ''sha256:cccccccccccccccccccccccccccccccccccccccccccccccccccccccccccccccc'') fmempty))
               fmempty)
        else JNull)\<rparr>"

definition scenario6_index :: json where
  "scenario6_index =
     JObject (fmupd ''Repositories''
       (JObject (fmupd ''h/r''
          (JObject (fmupd ''h/r@sha256:1111111111111111111111111111111111111111111111111111111111111111''
             (JString ''sha256:cccccccccccccccccccccccccccccccccccccccccccccccccccccccccccccccc'') fmempty))
          fmempty))
       fmempty)"

text \<open>
  A client for \<open>run\<close> on scenario 5, already booted on the commit \<^verbatim>\<open>C1\<close>: \<^verbatim>\<open>install\<close> returns
  the given result code, \<^verbatim>\<open>isTargetActive\<close> the given answer. The result codes stand for
  \<^verbatim>\<open>data::ResultCode::Numeric\<close>, of which the sources name \<^verbatim>\<open>kNeedCompletion\<close>.
\<close>

datatype ResultCode = kOk | kNeedCompletion | kInstallFailed

definition scenario_client :: "ResultCode \<Rightarrow> bool \<Rightarrow> (unit, ResultCode) LiteClient" where
  "scenario_client install_res active =
     \<lparr>checkImageMetaOffline = (\<lambda>c. (True, c)),
      allTargets = (\<lambda>c. [scenario5_T1, scenario5_T2]),
      primary_ecu_hw_id = (\<lambda>c. ''hw''),
      getCurrent_sha256Hash = (\<lambda>c. ''C1''),
      finalizeInstall = (\<lambda>c. (True, c)),
      download = (\<lambda>target description c. (True, c)),
      install = (\<lambda>target c. (install_res, c)),
      isTargetActive = (\<lambda>target c. active)\<rparr>"

section \<open>Properties: strings, HashedDigest and Uri\<close>


lemma find_char_0_None: "find_char s c 0 = None \<longleftrightarrow> c \<notin> set s"
  by (simp add: find_char_def)

lemma find_char_0_Some:
  "find_char s c 0 = Some p \<longleftrightarrow> (\<exists>pre post. s = pre @ c # post \<and> c \<notin> set pre \<and> p = length pre)"
proof
  assume a: "find_char s c 0 = Some p"
  then have m: "c \<in> set s" and p: "p = length (takeWhile (\<lambda>x. x \<noteq> c) s)"
    by (auto simp: find_char_def split: if_splits)
  let ?pre = "takeWhile (\<lambda>x. x \<noteq> c) s" and ?rest = "dropWhile (\<lambda>x. x \<noteq> c) s"
  from m have ne: "?rest \<noteq> []" by auto
  then have "hd ?rest = c" using hd_dropWhile[of "\<lambda>x. x \<noteq> c" s] by auto
  with ne have "?rest = c # tl ?rest" by (cases ?rest) auto
  then have "s = ?pre @ c # tl ?rest" by (metis takeWhile_dropWhile_id)
  moreover have "c \<notin> set ?pre" by (auto dest: set_takeWhileD)
  ultimately show "\<exists>pre post. s = pre @ c # post \<and> c \<notin> set pre \<and> p = length pre"
    using p by blast
next
  assume "\<exists>pre post. s = pre @ c # post \<and> c \<notin> set pre \<and> p = length pre"
  then obtain pre post where s: "s = pre @ c # post" and n: "c \<notin> set pre" and p: "p = length pre"
    by blast
  from n have "takeWhile (\<lambda>x. x \<noteq> c) (pre @ c # post) = pre"
    by (auto simp: takeWhile_tail)
  then show "find_char s c 0 = Some p" using s p by (simp add: find_char_def)
qed

lemma rfind_char_None: "rfind_char s c = None \<longleftrightarrow> c \<notin> set s"
  by (simp add: rfind_char_def)

lemma rfind_char_Some:
  "rfind_char s c = Some p \<longleftrightarrow> (\<exists>pre post. s = pre @ c # post \<and> c \<notin> set post \<and> p = length pre)"
proof
  assume a: "rfind_char s c = Some p"
  then have m: "c \<in> set (rev s)"
    and p: "p = length s - 1 - length (takeWhile (\<lambda>x. x \<noteq> c) (rev s))"
    by (auto simp: rfind_char_def split: if_splits)
  from m have "find_char (rev s) c 0 = Some (length (takeWhile (\<lambda>x. x \<noteq> c) (rev s)))"
    by (simp add: find_char_def)
  then obtain a b where r: "rev s = a @ c # b" and n: "c \<notin> set a"
    and l: "length (takeWhile (\<lambda>x. x \<noteq> c) (rev s)) = length a"
    unfolding find_char_0_Some by blast
  from r have "s = rev b @ c # rev a" by (metis rev_append rev.simps(2) rev_rev_ident append.assoc append_Cons append_Nil)
  moreover from this p l have "p = length (rev b)" by simp
  ultimately show "\<exists>pre post. s = pre @ c # post \<and> c \<notin> set post \<and> p = length pre"
    using n by (metis set_rev)
next
  assume "\<exists>pre post. s = pre @ c # post \<and> c \<notin> set post \<and> p = length pre"
  then obtain pre post where s: "s = pre @ c # post" and n: "c \<notin> set post" and p: "p = length pre"
    by blast
  from n have "takeWhile (\<lambda>x. x \<noteq> c) (rev post @ c # rev pre) = rev post"
    by (auto simp: takeWhile_tail)
  then show "rfind_char s c = Some p" using s p by (simp add: rfind_char_def)
qed

lemma to_lower_char_idem: "to_lower_char (to_lower_char c) = to_lower_char c"
proof -
  show ?thesis
    unfolding to_lower_char_def Let_def
    by simp
qed

lemma to_lower_copy_idem: "to_lower_copy (to_lower_copy s) = to_lower_copy s"
  by (simp add: to_lower_copy_def to_lower_char_idem)

lemma HashedDigest_Type_length: "length HashedDigest_Type = 7"
  by (simp add: HashedDigest_Type_def)

lemma HashedDigest_unfold:
  "HashedDigest s =
     (if to_lower_copy (take 7 s) \<noteq> ''sha256:'' then Inl Hash_UnsupportedType
      else if length (drop 7 s) \<noteq> 64 then Inl Hash_InvalidSize
      else Inr \<lparr>digest_str = to_lower_copy s, hash_str = to_lower_copy (drop 7 s),
                short_hash_str = take 7 (to_lower_copy (drop 7 s))\<rparr>)"
proof -
  have a: "take 7 (to_lower_copy s) = to_lower_copy (take 7 s)"
    and b: "drop 7 (to_lower_copy s) = to_lower_copy (drop 7 s)"
    and c: "length (to_lower_copy (drop 7 s)) = length (drop 7 s)"
    by (simp_all only: to_lower_copy_def take_map drop_map length_map)
  have "HashedDigest s =
     (if HashedDigest_Type \<noteq> take 7 (to_lower_copy s) then Inl Hash_UnsupportedType
      else if 64 \<noteq> length (drop 7 (to_lower_copy s)) then Inl Hash_InvalidSize
      else Inr \<lparr>digest_str = to_lower_copy s, hash_str = drop 7 (to_lower_copy s),
                short_hash_str = take 7 (drop 7 (to_lower_copy s))\<rparr>)"
    unfolding HashedDigest_def Let_def substr_def HashedDigest_Type_length drop_0 ..
  then show ?thesis
    unfolding a b c HashedDigest_Type_def by (auto simp only: split: if_splits)
qed

lemma HashedDigest_Inr_iff:
  "HashedDigest s = Inr d \<longleftrightarrow>
     (to_lower_copy (take 7 s) = ''sha256:'' \<and> length (drop 7 s) = 64 \<and>
      d = \<lparr>digest_str = to_lower_copy s, hash_str = to_lower_copy (drop 7 s),
           short_hash_str = take 7 (to_lower_copy (drop 7 s))\<rparr>)"
  unfolding HashedDigest_unfold by (auto simp only: sum.inject sum.distinct split: if_splits)

lemma count_list_split:
  "count_list (a @ c # b) c = 1 \<longleftrightarrow> c \<notin> set a \<and> c \<notin> set b"
  by (auto simp: count_list_0_iff)


lemma split_name:
  "(case rfind_char name c of
      Some p \<Rightarrow> (substr name 0 p, substr name (p + 1) (length name - p - 1))
    | None \<Rightarrow> ([], substr name 0 (length name))) = (f, a) \<longleftrightarrow>
   (if c \<in> set name then name = f @ c # a \<and> c \<notin> set a else f = [] \<and> a = name)"
proof (cases "rfind_char name c")
  case None
  then have "c \<notin> set name" by (simp add: rfind_char_None)
  then show ?thesis by (auto simp: None substr_def)
next
  case (Some p)
  then obtain pre post where n: "name = pre @ c # post" and np: "c \<notin> set post" and p: "p = length pre"
    unfolding rfind_char_Some by blast
  have m: "c \<in> set name" using n by simp
  have uniq: "f = pre \<and> a = post" if "name = f @ c # a" "c \<notin> set a"
  proof -
    have "rfind_char name c = Some (length f)" using that rfind_char_Some by blast
    with Some p have "length f = length pre" by simp
    with that(1) n show ?thesis by simp
  qed
  have l: "(case rfind_char name c of
      Some p \<Rightarrow> (substr name 0 p, substr name (p + 1) (length name - p - 1))
    | None \<Rightarrow> ([], substr name 0 (length name))) = (pre, post)"
    unfolding Some option.case substr_def using n p by simp
  have "(pre, post) = (f, a) \<longleftrightarrow> name = f @ c # a \<and> c \<notin> set a"
    using n np uniq by blast
  then show ?thesis unfolding l using m by simp
qed

lemma parseUri_decomposed:
  assumes s: "s = host @ CHR ''/'' # name @ CHR ''@'' # dg"
    and h: "CHR ''/'' \<notin> set host" "CHR ''@'' \<notin> set host" "CHR ''@'' \<notin> set name" "name \<noteq> []"
  shows "parseUri s fm =
     (let fa = (case rfind_char name (CHR ''/'') of
                  Some p \<Rightarrow> (substr name 0 p, substr name (p + 1) (length name - p - 1))
                | None \<Rightarrow> ([], substr name 0 (length name)))
      in if fm \<and> (fst fa = [] \<or> CHR ''/'' \<in> set (fst fa)) then Inl Uri_InvalidFactoryFormat
         else (case HashedDigest dg of Inl e \<Rightarrow> Inl e
               | Inr d \<Rightarrow> Inr \<lparr>digest = d, app = snd fa, factory = fst fa, repo = name,
                                registryHostname = host\<rparr>))"
proof -
  have "s = (host @ CHR ''/'' # name) @ CHR ''@'' # dg" using s by simp
  moreover have "CHR ''@'' \<notin> set (host @ CHR ''/'' # name)" using h by simp
  ultimately have fa: "find_char s (CHR ''@'') 0 = Some (length (host @ CHR ''/'' # name))"
    unfolding find_char_0_Some by blast
  have fs: "find_char s (CHR ''/'') 0 = Some (length host)"
    unfolding find_char_0_Some using s h(1) by blast
  have nle: "\<not> length (host @ CHR ''/'' # name) \<le> length host + 1" using h(4) by (cases name) auto
  have d: "drop (length (host @ CHR ''/'' # name) + 1) s = dg" using s by simp
  have r: "substr s 0 (length host) = host" using s by (simp add: substr_def)
  have n: "substr s (length host + 1) (length (host @ CHR ''/'' # name) - length host - 1) = name"
    using s by (simp add: substr_def)
  have fn: "find_char x (CHR ''/'') 0 \<noteq> None \<longleftrightarrow> CHR ''/'' \<in> set x" for x
    by (simp add: find_char_0_None)
  show ?thesis
    unfolding parseUri_def fa fs option.case Let_def d r n fn using nle by simp
qed

lemma parseUri_no_at: "find_char s (CHR ''@'') 0 = None \<Longrightarrow> parseUri s fm = Inl Uri_DigestNotFound"
  unfolding parseUri_def by (simp only: option.case)

lemma parseUri_no_slash:
  "find_char s (CHR ''@'') 0 = Some a \<Longrightarrow> find_char s (CHR ''/'') 0 = None \<Longrightarrow>
   parseUri s fm = Inl Uri_PathNotFound"
  unfolding parseUri_def by (simp only: option.case Let_def)

lemma parseUri_abuts:
  "find_char s (CHR ''@'') 0 = Some a \<Longrightarrow> find_char s (CHR ''/'') 0 = Some b \<Longrightarrow> a \<le> b + 1 \<Longrightarrow>
   parseUri s fm = Inl Uri_NameNotPresent"
  unfolding parseUri_def by (simp only: option.case Let_def if_True)

lemma parseUri_Inr_decomposes:
  assumes "parseUri s fm = Inr u"
  shows "\<exists>host name dg. s = host @ CHR ''/'' # name @ CHR ''@'' # dg \<and>
     CHR ''/'' \<notin> set host \<and> CHR ''@'' \<notin> set host \<and> CHR ''@'' \<notin> set name \<and> name \<noteq> []"
proof -
  from assms obtain a where fa: "find_char s (CHR ''@'') 0 = Some a"
    using parseUri_no_at[of s fm] by (cases "find_char s (CHR ''@'') 0") auto
  from assms fa obtain b where fb: "find_char s (CHR ''/'') 0 = Some b"
    using parseUri_no_slash[of s a fm] by (cases "find_char s (CHR ''/'') 0") auto
  from assms fa fb have lt: "b + 1 < a"
    using parseUri_abuts[of s a b fm] by (cases "a \<le> b + 1") auto
  from fa obtain pre dg where s1: "s = pre @ CHR ''@'' # dg" and n1: "CHR ''@'' \<notin> set pre"
    and a: "a = length pre" unfolding find_char_0_Some by blast
  from fb obtain host rest where s2: "s = host @ CHR ''/'' # rest" and n2: "CHR ''/'' \<notin> set host"
    and b: "b = length host" unfolding find_char_0_Some by blast
  let ?name = "take (length pre - length host - 1) rest"
  have "take (length pre) s = pre" using s1 by simp
  then have "take (length pre) (host @ CHR ''/'' # rest) = pre" using s2 by simp
  with lt a b have pre: "pre = host @ CHR ''/'' # ?name"
    by (simp add: take_Cons')
  have "length pre = length host + 1 + length ?name" by (subst pre) simp
  with lt a b have ne: "?name \<noteq> []" by auto
  have "set pre = set host \<union> {CHR ''/''} \<union> set ?name" by (subst pre) auto
  with n1 have "CHR ''@'' \<notin> set host" "CHR ''@'' \<notin> set ?name" by auto
  moreover have "s = host @ CHR ''/'' # ?name @ CHR ''@'' # dg"
    by (subst s1, subst pre) simp
  ultimately show ?thesis using n2 ne by blast
qed


lemma to_lower_char_not_upper:
  "\<not> (65 \<le> (of_char (to_lower_char c) :: nat) \<and> (of_char (to_lower_char c) :: nat) \<le> 90)"
  unfolding to_lower_char_def Let_def by simp

lemma HashedDigest_Inl_iff:
  "HashedDigest s = Inl e \<longleftrightarrow>
     to_lower_copy (take 7 s) \<noteq> ''sha256:'' \<and> e = Hash_UnsupportedType \<or>
     to_lower_copy (take 7 s) = ''sha256:'' \<and> length (drop 7 s) \<noteq> 64 \<and> e = Hash_InvalidSize"
  unfolding HashedDigest_unfold by (auto simp only: sum.inject sum.distinct split: if_splits)

text \<open>
  C7, as the code has it. The construction succeeds exactly when the first 7 characters
  of \<open>s\<close> are \<^verbatim>\<open>sha256:\<close> in any case and exactly 64 more characters follow, whatever they
  are: the code does not look whether they are hexadecimal. The stored digest and hash
  are the input in lower case (no letter A to Z is left) and the short hash is the first 7
  characters of the hash. Any other input fails: with the wrong prefix as an unsupported
  hash type, else as an invalid hash size.
\<close>

theorem HashedDigest_construction:
  "(HashedDigest s = Inr d \<longleftrightarrow>
      to_lower_copy (take 7 s) = ''sha256:'' \<and> length (drop 7 s) = 64 \<and>
      d = \<lparr>digest_str = to_lower_copy s, hash_str = to_lower_copy (drop 7 s),
           short_hash_str = take 7 (to_lower_copy (drop 7 s))\<rparr>) \<and>
   (HashedDigest s = Inl e \<longleftrightarrow>
      to_lower_copy (take 7 s) \<noteq> ''sha256:'' \<and> e = Hash_UnsupportedType \<or>
      to_lower_copy (take 7 s) = ''sha256:'' \<and> length (drop 7 s) \<noteq> 64 \<and> e = Hash_InvalidSize) \<and>
   (\<forall>c \<in> set (to_lower_copy s). \<not> (65 \<le> (of_char c :: nat) \<and> (of_char c :: nat) \<le> 90))"
proof (intro conjI)
  show "\<forall>c \<in> set (to_lower_copy s). \<not> (65 \<le> (of_char c :: nat) \<and> (of_char c :: nat) \<le> 90)"
    unfolding to_lower_copy_def using to_lower_char_not_upper by auto
qed (rule HashedDigest_Inr_iff, rule HashedDigest_Inl_iff)

theorem HashedDigest_construction_witness:
  "HashedDigest ''SHA256:0123456789ABCDEF0123456789abcdef0123456789ABCDEF0123456789abcdef'' =
     Inr \<lparr>digest_str = ''sha256:0123456789abcdef0123456789abcdef0123456789abcdef0123456789abcdef'',
          hash_str = ''0123456789abcdef0123456789abcdef0123456789abcdef0123456789abcdef'',
          short_hash_str = ''0123456''\<rparr> \<and>
   HashedDigest ''md5:0123'' = Inl Hash_UnsupportedType \<and>
   HashedDigest ''sha256:0123'' = Inl Hash_InvalidSize"
proof -
  let ?s = "''SHA256:0123456789ABCDEF0123456789abcdef0123456789ABCDEF0123456789abcdef''"
  let ?d = "\<lparr>digest_str = ''sha256:0123456789abcdef0123456789abcdef0123456789abcdef0123456789abcdef'',
             hash_str = ''0123456789abcdef0123456789abcdef0123456789abcdef0123456789abcdef'',
             short_hash_str = ''0123456''\<rparr>"
  have "to_lower_copy (take 7 ?s) = ''sha256:''" by code_simp
  moreover have "length (drop 7 ?s) = 64" by simp
  moreover have "?d = \<lparr>digest_str = to_lower_copy ?s, hash_str = to_lower_copy (drop 7 ?s),
                        short_hash_str = take 7 (to_lower_copy (drop 7 ?s))\<rparr>" by code_simp
  ultimately have 1: "HashedDigest ?s = Inr ?d"
    using HashedDigest_construction[of ?s ?d undefined] by blast
  have "to_lower_copy (take 7 ''md5:0123'') \<noteq> ''sha256:''" by code_simp
  then have 2: "HashedDigest ''md5:0123'' = Inl Hash_UnsupportedType"
    using HashedDigest_construction[of "''md5:0123''" undefined Hash_UnsupportedType] by blast
  have "to_lower_copy (take 7 ''sha256:0123'') = ''sha256:''" by code_simp
  moreover have "length (drop 7 ''sha256:0123'') \<noteq> 64" by simp
  ultimately have 3: "HashedDigest ''sha256:0123'' = Inl Hash_InvalidSize"
    using HashedDigest_construction[of "''sha256:0123''" undefined Hash_InvalidSize] by blast
  from 1 2 3 show ?thesis by blast
qed

text \<open>
  C7 as the spec words it asks for 64 hexadecimal characters: the construction succeeds
  on 64 times the letter z, which is not one.
\<close>

theorem HashedDigest_hex_counterexample:
  "HashedDigest ''sha256:zzzzzzzzzzzzzzzzzzzzzzzzzzzzzzzzzzzzzzzzzzzzzzzzzzzzzzzzzzzzzzzz'' =
     Inr \<lparr>digest_str = ''sha256:zzzzzzzzzzzzzzzzzzzzzzzzzzzzzzzzzzzzzzzzzzzzzzzzzzzzzzzzzzzzzzzz'',
          hash_str = ''zzzzzzzzzzzzzzzzzzzzzzzzzzzzzzzzzzzzzzzzzzzzzzzzzzzzzzzzzzzzzzzz'',
          short_hash_str = ''zzzzzzz''\<rparr> \<and>
   \<not> is_hex_char (CHR ''z'')"
  by (simp add: HashedDigest_unfold to_lower_copy_def to_lower_char_def is_hex_char_def)

lemma parseUri_Inr_iff:
  "parseUri s fm = Inr u \<longleftrightarrow>
     (\<exists>host name dg d.
        s = host @ CHR ''/'' # name @ CHR ''@'' # dg \<and>
        CHR ''/'' \<notin> set host \<and> CHR ''@'' \<notin> set host \<and> CHR ''@'' \<notin> set name \<and> name \<noteq> [] \<and>
        HashedDigest dg = Inr d \<and>
        (if CHR ''/'' \<in> set name
         then name = factory u @ CHR ''/'' # app u \<and> CHR ''/'' \<notin> set (app u)
         else factory u = [] \<and> app u = name) \<and>
        (fm \<longrightarrow> count_list name (CHR ''/'') = 1 \<and> factory u \<noteq> []) \<and>
        registryHostname u = host \<and> repo u = name \<and> digest u = d)"
  (is "?L \<longleftrightarrow> ?R")
proof
  assume L: ?L
  then obtain host name dg where s: "s = host @ CHR ''/'' # name @ CHR ''@'' # dg"
    and h: "CHR ''/'' \<notin> set host" "CHR ''@'' \<notin> set host" "CHR ''@'' \<notin> set name" "name \<noteq> []"
    using parseUri_Inr_decomposes by blast
  obtain f a where fa: "(case rfind_char name (CHR ''/'') of
                  Some p \<Rightarrow> (substr name 0 p, substr name (p + 1) (length name - p - 1))
                | None \<Rightarrow> ([], substr name 0 (length name))) = (f, a)" by fastforce
  note sp = fa[unfolded split_name]
  from L have ok: "\<not> (fm \<and> (f = [] \<or> CHR ''/'' \<in> set f))"
    unfolding parseUri_decomposed[OF s h] fa Let_def by (auto split: if_splits)
  with L obtain d where d: "HashedDigest dg = Inr d"
    and u: "u = \<lparr>digest = d, app = a, factory = f, repo = name, registryHostname = host\<rparr>"
    unfolding parseUri_decomposed[OF s h] fa Let_def by (auto split: if_splits sum.splits)
  have cnt: "count_list name (CHR ''/'') = 1 \<and> f \<noteq> []" if fm
  proof -
    from that ok have f: "f \<noteq> []" "CHR ''/'' \<notin> set f" by auto
    with sp have "name = f @ CHR ''/'' # a \<and> CHR ''/'' \<notin> set a" by (auto split: if_splits)
    with f show ?thesis by (simp add: count_list_split)
  qed
  have "registryHostname u = host" "repo u = name" "digest u = d" "factory u = f" "app u = a"
    using u by simp_all
  then show ?R using s h d sp cnt by blast
next
  assume ?R
  then obtain host name dg d where s: "s = host @ CHR ''/'' # name @ CHR ''@'' # dg"
    and h: "CHR ''/'' \<notin> set host" "CHR ''@'' \<notin> set host" "CHR ''@'' \<notin> set name" "name \<noteq> []"
    and d: "HashedDigest dg = Inr d"
    and sp: "if CHR ''/'' \<in> set name
         then name = factory u @ CHR ''/'' # app u \<and> CHR ''/'' \<notin> set (app u)
         else factory u = [] \<and> app u = name"
    and f: "fm \<longrightarrow> count_list name (CHR ''/'') = 1 \<and> factory u \<noteq> []"
    and u: "registryHostname u = host" "repo u = name" "digest u = d"
    by blast
  have fa: "(case rfind_char name (CHR ''/'') of
                  Some p \<Rightarrow> (substr name 0 p, substr name (p + 1) (length name - p - 1))
                | None \<Rightarrow> ([], substr name 0 (length name))) = (factory u, app u)"
    unfolding split_name using sp .
  have ok: "\<not> (fm \<and> (factory u = [] \<or> CHR ''/'' \<in> set (factory u)))"
  proof
    assume a: "fm \<and> (factory u = [] \<or> CHR ''/'' \<in> set (factory u))"
    with f have c: "count_list name (CHR ''/'') = 1" and ne: "factory u \<noteq> []" by auto
    from c have "CHR ''/'' \<in> set name" by (metis count_list_0_iff zero_neq_one)
    with sp have n: "name = factory u @ CHR ''/'' # app u" by simp
    with c have "CHR ''/'' \<notin> set (factory u)" by (metis count_list_split)
    with a ne show False by simp
  qed
  have "u = \<lparr>digest = d, app = app u, factory = factory u, repo = name, registryHostname = host\<rparr>"
    using u by simp
  then show ?L unfolding parseUri_decomposed[OF s h] fa Let_def using ok d by simp
qed

text \<open>
  C6, as the code has it. \<open>parseUri\<close> succeeds exactly on the strings
  \<^verbatim>\<open>host/name@digest\<close> where \<^verbatim>\<open>host\<close> holds neither \<^verbatim>\<open>/\<close> nor \<^verbatim>\<open>@\<close>, \<^verbatim>\<open>name\<close> is not empty
  and holds no \<^verbatim>\<open>@\<close> (the split is at the first \<^verbatim>\<open>/\<close> and at the first \<^verbatim>\<open>@\<close>), and the
  digest is a valid \<open>HashedDigest\<close>. The prefix is the registry host and \<^verbatim>\<open>name\<close> the repo,
  split at its last \<^verbatim>\<open>/\<close> into factory and app, the factory being empty when there is
  none. In factory mode the repo has exactly one \<^verbatim>\<open>/\<close> (and a factory that is not
  empty). When the first \<^verbatim>\<open>@\<close> is before the first \<^verbatim>\<open>/\<close> or right after it, the call fails.
\<close>

theorem parseUri_splits:
  "(parseUri s fm = Inr u \<longleftrightarrow>
     (\<exists>host name dg d.
        s = host @ CHR ''/'' # name @ CHR ''@'' # dg \<and>
        CHR ''/'' \<notin> set host \<and> CHR ''@'' \<notin> set host \<and> CHR ''@'' \<notin> set name \<and> name \<noteq> [] \<and>
        HashedDigest dg = Inr d \<and>
        (if CHR ''/'' \<in> set name
         then name = factory u @ CHR ''/'' # app u \<and> CHR ''/'' \<notin> set (app u)
         else factory u = [] \<and> app u = name) \<and>
        (fm \<longrightarrow> count_list name (CHR ''/'') = 1 \<and> factory u \<noteq> []) \<and>
        registryHostname u = host \<and> repo u = name \<and> digest u = d)) \<and>
   (\<forall>a b. find_char s (CHR ''@'') 0 = Some a \<and> find_char s (CHR ''/'') 0 = Some b \<and> a \<le> b + 1
      \<longrightarrow> parseUri s fm = Inl Uri_NameNotPresent)"
  using parseUri_Inr_iff[of s fm u] parseUri_abuts[of s _ _ fm] by blast

theorem parseUri_splits_witness:
  "parseUri ''hub.foundries.io/factory/app@sha256:0123456789abcdef0123456789abcdef0123456789abcdef0123456789abcdef'' True =
     Inr \<lparr>digest = \<lparr>digest_str = ''sha256:0123456789abcdef0123456789abcdef0123456789abcdef0123456789abcdef'',
                   hash_str = ''0123456789abcdef0123456789abcdef0123456789abcdef0123456789abcdef'',
                   short_hash_str = ''0123456''\<rparr>,
          app = ''app'', factory = ''factory'', repo = ''factory/app'',
          registryHostname = ''hub.foundries.io''\<rparr> \<and>
   parseUri ''h/@sha256:00'' False = Inl Uri_NameNotPresent"
proof -
  let ?dg = "''sha256:0123456789abcdef0123456789abcdef0123456789abcdef0123456789abcdef''"
  let ?d = "\<lparr>digest_str = ?dg,
             hash_str = ''0123456789abcdef0123456789abcdef0123456789abcdef0123456789abcdef'',
             short_hash_str = ''0123456''\<rparr>"
  let ?u = "\<lparr>digest = ?d, app = ''app'', factory = ''factory'', repo = ''factory/app'',
             registryHostname = ''hub.foundries.io''\<rparr>"
  have d: "HashedDigest ?dg = Inr ?d"
    by (simp add: HashedDigest_unfold to_lower_copy_def to_lower_char_def)
  have "\<exists>host name dg d.
        ''hub.foundries.io/factory/app@sha256:0123456789abcdef0123456789abcdef0123456789abcdef0123456789abcdef''
          = host @ CHR ''/'' # name @ CHR ''@'' # dg \<and>
        CHR ''/'' \<notin> set host \<and> CHR ''@'' \<notin> set host \<and> CHR ''@'' \<notin> set name \<and> name \<noteq> [] \<and>
        HashedDigest dg = Inr d \<and>
        (if CHR ''/'' \<in> set name
         then name = factory ?u @ CHR ''/'' # app ?u \<and> CHR ''/'' \<notin> set (app ?u)
         else factory ?u = [] \<and> app ?u = name) \<and>
        (True \<longrightarrow> count_list name (CHR ''/'') = 1 \<and> factory ?u \<noteq> []) \<and>
        registryHostname ?u = host \<and> repo ?u = name \<and> digest ?u = d"
    apply (rule exI[of _ "''hub.foundries.io''"])
    apply (rule exI[of _ "''factory/app''"])
    apply (rule exI[of _ ?dg])
    apply (rule exI[of _ ?d])
    using d apply simp
    done
  moreover have "find_char ''h/@sha256:00'' (CHR ''@'') 0 = Some 2"
    "find_char ''h/@sha256:00'' (CHR ''/'') 0 = Some 1"
    by (simp_all add: find_char_def)
  ultimately show ?thesis
    using parseUri_splits[of _ True ?u] parseUri_splits[of "''h/@sha256:00''" False undefined]
    by (metis Suc_1 Suc_eq_plus1 order_refl)
qed

text \<open>
  C6 as the spec words it takes the digest after the last \<^verbatim>\<open>@\<close>. On the first uri the
  digest the code takes starts after the first \<^verbatim>\<open>@\<close> and holds the second one, and nothing
  is left after the last \<^verbatim>\<open>@\<close>. On the second uri a valid digest follows the last \<^verbatim>\<open>@\<close>,
  but the code takes what follows the first one and fails.
\<close>

theorem parseUri_last_at_counterexample:
  "parseUri ''h/r@sha256:aaaaaaaaaaaaaaaaaaaaaaaaaaaaaaaaaaaaaaaaaaaaaaaaaaaaaaaaaaaaaaa@'' False =
     Inr \<lparr>digest = \<lparr>digest_str = ''sha256:aaaaaaaaaaaaaaaaaaaaaaaaaaaaaaaaaaaaaaaaaaaaaaaaaaaaaaaaaaaaaaa@'',
                   hash_str = ''aaaaaaaaaaaaaaaaaaaaaaaaaaaaaaaaaaaaaaaaaaaaaaaaaaaaaaaaaaaaaaa@'',
                   short_hash_str = ''aaaaaaa''\<rparr>,
          app = ''r'', factory = [], repo = ''r'', registryHostname = ''h''\<rparr> \<and>
   after_last_at ''h/r@sha256:aaaaaaaaaaaaaaaaaaaaaaaaaaaaaaaaaaaaaaaaaaaaaaaaaaaaaaaaaaaaaaa@'' = Some [] \<and>
   parseUri ''h/r@x@sha256:0000000000000000000000000000000000000000000000000000000000000000'' False =
     Inl Hash_UnsupportedType \<and>
   after_last_at ''h/r@x@sha256:0000000000000000000000000000000000000000000000000000000000000000'' =
     Some ''sha256:0000000000000000000000000000000000000000000000000000000000000000'' \<and>
   HashedDigest ''sha256:0000000000000000000000000000000000000000000000000000000000000000'' =
     Inr \<lparr>digest_str = ''sha256:0000000000000000000000000000000000000000000000000000000000000000'',
          hash_str = ''0000000000000000000000000000000000000000000000000000000000000000'',
          short_hash_str = ''0000000''\<rparr>"
proof -
  have d: "HashedDigest ''sha256:aaaaaaaaaaaaaaaaaaaaaaaaaaaaaaaaaaaaaaaaaaaaaaaaaaaaaaaaaaaaaaa@'' =
    Inr \<lparr>digest_str = ''sha256:aaaaaaaaaaaaaaaaaaaaaaaaaaaaaaaaaaaaaaaaaaaaaaaaaaaaaaaaaaaaaaa@'',
                   hash_str = ''aaaaaaaaaaaaaaaaaaaaaaaaaaaaaaaaaaaaaaaaaaaaaaaaaaaaaaaaaaaaaaa@'',
                   short_hash_str = ''aaaaaaa''\<rparr>"
    by (simp add: HashedDigest_unfold to_lower_copy_def to_lower_char_def)
  have s: "''h/r@sha256:aaaaaaaaaaaaaaaaaaaaaaaaaaaaaaaaaaaaaaaaaaaaaaaaaaaaaaaaaaaaaaa@'' =
      ''h'' @ CHR ''/'' # ''r'' @ CHR ''@'' # ''sha256:aaaaaaaaaaaaaaaaaaaaaaaaaaaaaaaaaaaaaaaaaaaaaaaaaaaaaaaaaaaaaaa@''"
    by simp
  have 1: "parseUri ''h/r@sha256:aaaaaaaaaaaaaaaaaaaaaaaaaaaaaaaaaaaaaaaaaaaaaaaaaaaaaaaaaaaaaaa@'' False =
     Inr \<lparr>digest = \<lparr>digest_str = ''sha256:aaaaaaaaaaaaaaaaaaaaaaaaaaaaaaaaaaaaaaaaaaaaaaaaaaaaaaaaaaaaaaa@'',
                   hash_str = ''aaaaaaaaaaaaaaaaaaaaaaaaaaaaaaaaaaaaaaaaaaaaaaaaaaaaaaaaaaaaaaa@'',
                   short_hash_str = ''aaaaaaa''\<rparr>,
          app = ''r'', factory = [], repo = ''r'', registryHostname = ''h''\<rparr>"
    by (subst parseUri_decomposed[OF s]) (simp_all add: d rfind_char_def substr_def)
  have 2: "after_last_at ''h/r@sha256:aaaaaaaaaaaaaaaaaaaaaaaaaaaaaaaaaaaaaaaaaaaaaaaaaaaaaaaaaaaaaaa@'' = Some []"
    by (simp add: after_last_at_def rfind_char_def)
  have e: "HashedDigest ''x@sha256:0000000000000000000000000000000000000000000000000000000000000000'' =
      Inl Hash_UnsupportedType"
    by (simp add: HashedDigest_unfold to_lower_copy_def to_lower_char_def)
  have t: "''h/r@x@sha256:0000000000000000000000000000000000000000000000000000000000000000'' =
      ''h'' @ CHR ''/'' # ''r'' @ CHR ''@'' #
        ''x@sha256:0000000000000000000000000000000000000000000000000000000000000000''"
    by simp
  have 3: "parseUri ''h/r@x@sha256:0000000000000000000000000000000000000000000000000000000000000000'' False =
     Inl Hash_UnsupportedType"
    by (subst parseUri_decomposed[OF t]) (simp_all add: e rfind_char_def substr_def)
  have 4: "after_last_at ''h/r@x@sha256:0000000000000000000000000000000000000000000000000000000000000000'' =
     Some ''sha256:0000000000000000000000000000000000000000000000000000000000000000''"
    by (simp add: after_last_at_def rfind_char_def)
  have 5: "HashedDigest ''sha256:0000000000000000000000000000000000000000000000000000000000000000'' =
     Inr \<lparr>digest_str = ''sha256:0000000000000000000000000000000000000000000000000000000000000000'',
          hash_str = ''0000000000000000000000000000000000000000000000000000000000000000'',
          short_hash_str = ''0000000''\<rparr>"
    by (simp add: HashedDigest_unfold to_lower_copy_def to_lower_char_def)
  from 1 2 3 4 5 show ?thesis by blast
qed

section \<open>Properties: the download context\<close>


lemma size_t_of_nat: "size_t_of (int n) = n mod 2 ^ 64"
  by (simp add: size_t_of_def nat_mod_distrib flip: zmod_int)

lemma write_expected: "expected_size (fst (DownloadCtx_write ctx chunk)) = expected_size ctx"
  by (simp add: DownloadCtx_write_def Let_def)

lemma write_fail_sticky:
  "os_fail (out_stream ctx) \<Longrightarrow> os_fail (out_stream (fst (DownloadCtx_write ctx chunk)))"
  by (simp add: DownloadCtx_write_def Let_def ostream_good_def)

lemma write_chunks_fail_sticky:
  "os_fail (out_stream ctx) \<Longrightarrow> os_fail (out_stream (write_chunks ctx chunks))"
  by (induction chunks arbitrary: ctx) (simp_all add: write_fail_sticky)

lemma write_chunks_expected: "expected_size (write_chunks ctx chunks) = expected_size ctx"
  by (induction chunks arbitrary: ctx) (simp_all add: write_expected)

text \<open>The stream: a short chunk is buffered; a write that succeeds advances \<^verbatim>\<open>tellp\<close> by
  the length of the chunk, a write that fails leaves it at -1.\<close>

lemma ostream_write_buffers:
  "\<not> os_fail os \<Longrightarrow> length bytes < min filebuf_chunk (filebuf_capacity - length (os_buf os)) \<Longrightarrow>
   ostream_write os bytes = os\<lparr>os_buf := os_buf os @ bytes\<rparr>"
  by (simp add: ostream_write_def)

lemma ostream_write_advances:
  assumes "\<not> os_fail os" and "\<not> os_fail (ostream_write os bytes)"
  shows "ostream_tellp (ostream_write os bytes) - ostream_tellp os = int (length bytes)"
proof (cases "length bytes < min filebuf_chunk (filebuf_capacity - length (os_buf os))")
  case True
  with assms(1) show ?thesis by (simp add: ostream_write_def ostream_tellp_def)
next
  case False
  with assms have t: "medium_takes os (os_buf os @ bytes)"
    by (auto simp: ostream_write_def split: if_splits)
  then have "min (length (os_buf os @ bytes)) (length (os_data os) - os_pos os + os_room os)
      = length (os_buf os) + length bytes"
    by (simp add: medium_takes_def)
  with assms(1) False t show ?thesis
    by (simp add: ostream_write_def ostream_tellp_def medium_write_def Let_def)
qed

lemma ostream_write_failed:
  "os_fail (ostream_write os bytes) \<Longrightarrow> ostream_tellp (ostream_write os bytes) = - 1"
  by (simp add: ostream_tellp_def)

text \<open>The three ways of the callback: the chunk is refused, taken, or the write fails.\<close>

lemma write_rejects:
  assumes "expected_size ctx < (written_size ctx + length chunk) mod 2 ^ 64 \<or> os_fail (out_stream ctx)"
  shows "DownloadCtx_write ctx chunk =
     (ctx\<lparr>received_size := (written_size ctx + length chunk) mod 2 ^ 64\<rparr>, (length chunk + 1) mod 2 ^ 64)"
  using assms by (auto simp: DownloadCtx_write_def Let_def ostream_good_def)

lemma write_taken:
  assumes "(written_size ctx + length chunk) mod 2 ^ 64 \<le> expected_size ctx"
    and "\<not> os_fail (out_stream ctx)" and "\<not> os_fail (ostream_write (out_stream ctx) chunk)"
  shows "DownloadCtx_write ctx chunk =
     (ctx\<lparr>received_size := (written_size ctx + length chunk) mod 2 ^ 64,
          out_stream := ostream_write (out_stream ctx) chunk,
          written_size := (written_size ctx + length chunk) mod 2 ^ 64,
          hasher := hasher ctx @ chunk\<rparr>, length chunk mod 2 ^ 64)"
proof -
  note t = ostream_write_advances[OF assms(2,3)]
  show ?thesis
    using assms(1,2)
    by (simp add: DownloadCtx_write_def Let_def ostream_good_def t size_t_of_nat mod_simps)
qed

lemma write_sink_fails:
  assumes "(written_size ctx + length chunk) mod 2 ^ 64 \<le> expected_size ctx"
    and "\<not> os_fail (out_stream ctx)" and "os_fail (ostream_write (out_stream ctx) chunk)"
  shows "os_fail (out_stream (fst (DownloadCtx_write ctx chunk))) \<and>
         hasher (fst (DownloadCtx_write ctx chunk)) = hasher ctx @ chunk \<and>
         snd (DownloadCtx_write ctx chunk) = size_t_of (- 1 - ostream_tellp (out_stream ctx)) \<and>
         written_size (fst (DownloadCtx_write ctx chunk)) =
           (written_size ctx + size_t_of (- 1 - ostream_tellp (out_stream ctx))) mod 2 ^ 64"
  using assms
  by (simp add: DownloadCtx_write_def Let_def ostream_good_def ostream_write_failed)

text \<open>
  As long as the sink has not failed, \<open>written\<close> stays within \<open>expected_size\<close> over any
  sequence of invocations.
\<close>

lemma write_invariant_step:
  assumes "written_size ctx \<le> expected_size ctx"
    and "\<not> os_fail (out_stream (fst (DownloadCtx_write ctx chunk)))"
  shows "written_size (fst (DownloadCtx_write ctx chunk)) \<le> expected_size ctx"
proof -
  from assms(2) have nf: "\<not> os_fail (out_stream ctx)" using write_fail_sticky by blast
  show ?thesis
  proof (cases "(written_size ctx + length chunk) mod 2 ^ 64 \<le> expected_size ctx")
    case False
    then show ?thesis using assms(1) by (simp add: DownloadCtx_write_def Let_def)
  next
    case le: True
    show ?thesis
    proof (cases "os_fail (ostream_write (out_stream ctx) chunk)")
      case True
      from write_sink_fails[OF le nf True] assms(2) show ?thesis by simp
    next
      case False
      from write_taken[OF le nf False] le show ?thesis by simp
    qed
  qed
qed

lemma write_chunks_invariant:
  "written_size ctx \<le> expected_size ctx \<Longrightarrow> \<not> os_fail (out_stream (write_chunks ctx chunks)) \<Longrightarrow>
   written_size (write_chunks ctx chunks) \<le> expected_size ctx"
proof (induction chunks arbitrary: ctx)
  case Nil
  then show ?case by simp
next
  case (Cons c cs)
  let ?c1 = "fst (DownloadCtx_write ctx c)"
  from Cons.prems(2) have nf: "\<not> os_fail (out_stream ?c1)"
    using write_chunks_fail_sticky[of ?c1 cs] by auto
  from write_invariant_step[OF Cons.prems(1) nf] have "written_size ?c1 \<le> expected_size ?c1"
    by (simp add: write_expected)
  from Cons.IH[OF this] Cons.prems(2) show ?case by (simp add: write_expected)
qed

text \<open>
  A chunk of three bytes on a medium that is full: the file stream buffers it and stays
  good, \<open>written\<close> is 3 and 3 is returned.
\<close>

lemma DownloadCtx_write_buffers_small_chunk:
  "DownloadCtx_write
     \<lparr>out_stream = ofstream_open full_disk, hasher = [], expected_size = 10,
      written_size = 0, received_size = 0\<rparr> ''abc'' =
     (\<lparr>out_stream = \<lparr>os_data = [], os_pos = 0, os_buf = ''abc'', os_fail = False, os_room = 0\<rparr>,
       hasher = ''abc'', expected_size = 10, written_size = 3, received_size = 3\<rparr>, 3)"
proof -
  let ?ctx = "\<lparr>out_stream = ofstream_open full_disk, hasher = [], expected_size = 10,
      written_size = 0, received_size = 0\<rparr>"
  have w: "ostream_write (ofstream_open full_disk) ''abc'' =
      \<lparr>os_data = [], os_pos = 0, os_buf = ''abc'', os_fail = False, os_room = 0\<rparr>"
    by (simp add: ostream_write_def ofstream_open_def full_disk_def filebuf_chunk_def
          filebuf_capacity_def)
  have nf: "\<not> os_fail (ofstream_open full_disk)" by (simp add: ofstream_open_def)
  from write_taken[of ?ctx "''abc''"] nf show ?thesis by (simp add: w)
qed

text \<open>
  C3 has \<open>written \<le> expected_size\<close> at all times, over any sequence of invocations of the
  callback. The callback keeps it where it refuses a chunk, and as long as the sink has
  not failed. It loses it when a write fails: \<^verbatim>\<open>tellp\<close> then returns -1, and the position
  delta that lines 243 and 245 add to \<open>written\<close> and return is negative. Here a blob of 4096
  bytes is expected on a medium that is full, and the first chunk has the 4096 bytes: the
  stream writes it through, the write fails, all the bytes are hashed, and \<open>written\<close> and the
  count returned are \<open>2 ^ 64 - 1\<close>.
\<close>

theorem DownloadCtx_write_full_medium:
  "DownloadCtx_write
     \<lparr>out_stream = ofstream_open full_disk, hasher = [], expected_size = 4096,
      written_size = 0, received_size = 0\<rparr> (replicate 4096 (CHR ''a'')) =
     (\<lparr>out_stream = \<lparr>os_data = [], os_pos = 0, os_buf = [], os_fail = True, os_room = 0\<rparr>,
       hasher = replicate 4096 (CHR ''a''), expected_size = 4096,
       written_size = 18446744073709551615, received_size = 4096\<rparr>,
      18446744073709551615) \<and>
   expected_size (fst (DownloadCtx_write
     \<lparr>out_stream = ofstream_open full_disk, hasher = [], expected_size = 4096,
      written_size = 0, received_size = 0\<rparr> (replicate 4096 (CHR ''a''))))
   < written_size (fst (DownloadCtx_write
     \<lparr>out_stream = ofstream_open full_disk, hasher = [], expected_size = 4096,
      written_size = 0, received_size = 0\<rparr> (replicate 4096 (CHR ''a''))))"
proof -
  let ?chunk = "replicate 4096 (CHR ''a'')"
  have w: "ostream_write (ofstream_open full_disk) ?chunk =
      \<lparr>os_data = [], os_pos = 0, os_buf = [], os_fail = True, os_room = 0\<rparr>"
    by (simp add: ostream_write_def ofstream_open_def full_disk_def filebuf_chunk_def
          filebuf_capacity_def medium_takes_def medium_write_def)
  have t: "ostream_tellp (ofstream_open full_disk) = 0"
    by (simp add: ostream_tellp_def ofstream_open_def)
  have g: "ostream_good (ofstream_open full_disk)"
    by (simp add: ostream_good_def ofstream_open_def)
  have f: "ostream_tellp \<lparr>os_data = [], os_pos = 0, os_buf = [], os_fail = True, os_room = 0\<rparr> = - 1"
    by (simp add: ostream_tellp_def)
  have d: "size_t_of (- 1) = 18446744073709551615" by (simp add: size_t_of_def)
  have "DownloadCtx_write
     \<lparr>out_stream = ofstream_open full_disk, hasher = [], expected_size = 4096,
      written_size = 0, received_size = 0\<rparr> ?chunk =
     (\<lparr>out_stream = \<lparr>os_data = [], os_pos = 0, os_buf = [], os_fail = True, os_room = 0\<rparr>,
       hasher = ?chunk, expected_size = 4096,
       written_size = 18446744073709551615, received_size = 4096\<rparr>,
      18446744073709551615)"
    by (simp add: DownloadCtx_write_def Let_def w t g f d)
  then show ?thesis by simp
qed

section \<open>Properties: getAppManifest\<close>


lemma size_t_of_nonneg: "0 \<le> n \<Longrightarrow> n < 2 ^ 64 \<Longrightarrow> size_t_of n = nat n"
  by (simp add: size_t_of_def)

lemma checkAppManifest_Inr:
  assumes "checkAppManifest env uri manifest_size manifest_max_size resp = Inr b"
  shows "b = body resp \<and> isOk resp \<and>
         (case manifest_size of Some n \<Rightarrow> length b = size_t_of n
          | None \<Rightarrow> length b \<le> size_t_of manifest_max_size) \<and>
         to_lower_copy (hex (sha256digest env b)) = hash_str (digest uri)"
  using assms unfolding checkAppManifest_def
  by (auto split: if_splits option.splits)

lemma getAppManifest_Inr:
  assumes "getAppManifest env uri format manifest_size io = (Inr b, io')"
  shows "\<exists>resp. checkAppManifest env uri manifest_size
            (case manifest_size of Some n \<Rightarrow> n | None \<Rightarrow> DefManifestMaxSize env) resp = Inr b"
  using assms unfolding getAppManifest_def Let_def
  by (auto split: prod.splits if_splits option.splits sum.splits)

text \<open>
  C4. When \<open>getAppManifest\<close> returns a body, for an expected size and a default cap that
  are sizes (not negative, below \<open>2 ^ 63\<close>): the length of the body is the expected size
  if one was supplied and at most the default cap otherwise, and the SHA-256 of the body,
  in lower-case hex, is the hash of the digest of the uri. So a size or digest mismatch
  returns no body.
\<close>

theorem getAppManifest_returns_verified_body:
  assumes "getAppManifest env uri format manifest_size io = (Inr b, io')"
    and "\<forall>n. manifest_size = Some n \<longrightarrow> 0 \<le> n \<and> n < 2 ^ 63"
    and "0 \<le> DefManifestMaxSize env \<and> DefManifestMaxSize env < 2 ^ 63"
  shows "(case manifest_size of Some n \<Rightarrow> int (length b) = n
          | None \<Rightarrow> int (length b) \<le> DefManifestMaxSize env) \<and>
         to_lower_copy (hex (sha256digest env b)) = hash_str (digest uri)"
proof -
  from getAppManifest_Inr[OF assms(1)] obtain resp where
    "checkAppManifest env uri manifest_size
            (case manifest_size of Some n \<Rightarrow> n | None \<Rightarrow> DefManifestMaxSize env) resp = Inr b"
    by blast
  from checkAppManifest_Inr[OF this] have
    c: "case manifest_size of Some n \<Rightarrow> length b = size_t_of n
          | None \<Rightarrow> length b \<le> size_t_of (DefManifestMaxSize env)"
    and h: "to_lower_copy (hex (sha256digest env b)) = hash_str (digest uri)"
    by (auto split: option.splits)
  show ?thesis
  proof (cases manifest_size)
    case None
    with c assms(3) h show ?thesis by (simp add: size_t_of_nonneg le_nat_iff)
  next
    case (Some n)
    with assms(2) have "0 \<le> n" "n < 2 ^ 64" by auto
    with c Some h show ?thesis by (simp add: size_t_of_nonneg)
  qed
qed


lemma BearerAuth_challenge_Bearer: "BearerAuth challenge_Bearer = Inl Auth_UnsupportedType"
  by code_simp


lemma scenario_bearer_run:
  "getAppManifest (scenario_env challenge_bearer) scenario_uri ''fmt'' (Some 2) ((), []) =
     (Inr ''{}'',
      ((), [FactoryGet [''accept:fmt''] (composeManifestUrl scenario_uri) 2,
            OtaLiteGet ''https://ota-lite/hub-creds/'' 1024,
            FactoryGet [''authorization: basic test-user:secret'']
              ''https://x/t?service=s&scope=repository:r:pull'' 1024,
            FactoryGet [''accept:fmt'', ''authorization: bearer T''] (composeManifestUrl scenario_uri) 2]))"
  by code_simp

theorem getAppManifest_returns_verified_body_witness:
  "int (length ''{}'') = 2 \<and>
   to_lower_copy (hex (sha256digest (scenario_env challenge_bearer) ''{}'')) = hash_str (digest scenario_uri)"
  using getAppManifest_returns_verified_body[OF scenario_bearer_run]
  by (simp add: scenario_env_def)



section \<open>Properties: downloadBlob\<close>

text \<open>
  After the last request: a size or digest mismatch removes the file, a failed transfer
  leaves what the medium has taken of it.
\<close>

lemma finishDownloadBlob_mismatch_removes:
  assumes "fst (finishDownloadBlob env uri filepath n fs ctx resp) = Inl Blob_SizeMismatch \<or>
           fst (finishDownloadBlob env uri filepath n fs ctx resp) = Inl Blob_HashMismatch"
  shows "files (snd (finishDownloadBlob env uri filepath n fs ctx resp)) filepath = None"
  using assms
  by (auto simp: finishDownloadBlob_def Let_def std_remove_def split: if_splits)

lemma finishDownloadBlob_failed_transfer_keeps:
  "\<not> isOk resp \<Longrightarrow>
   finishDownloadBlob env uri filepath n fs ctx resp =
     (Inl Blob_DownloadFailed, ofstream_close fs filepath (out_stream ctx))"
  by (simp add: finishDownloadBlob_def Let_def)

text \<open>
  The result of \<^verbatim>\<open>close()\<close> (line 295) is not tested. On a medium that is full, a blob of
  two bytes stays in the buffer of the stream, \<open>written\<close> is 2, the transfer ends with 200
  and the digest matches: \<open>downloadBlob\<close> succeeds and the file is empty.
\<close>

lemma downloadBlob_unchecked_close:
  "fst (downloadBlob small_blob_env scenario_uri ''/blob'' 2 full_disk ((), [])) = Inr () \<and>
   files (fst (snd (downloadBlob small_blob_env scenario_uri ''/blob'' 2 full_disk ((), []))))
     ''/blob'' = Some []"
proof -
  let ?ctx = "\<lparr>out_stream = ofstream_open full_disk, hasher = [], expected_size = 2,
               written_size = 0, received_size = 0\<rparr>"
  let ?ctx1 = "\<lparr>out_stream = \<lparr>os_data = [], os_pos = 0, os_buf = ''ab'', os_fail = False, os_room = 0\<rparr>,
                hasher = ''ab'', expected_size = 2, written_size = 2, received_size = 2\<rparr>"
  have b: "ostream_write (ofstream_open full_disk) ''ab'' =
      \<lparr>os_data = [], os_pos = 0, os_buf = ''ab'', os_fail = False, os_room = 0\<rparr>"
    by (simp add: ostream_write_def ofstream_open_def full_disk_def filebuf_chunk_def
          filebuf_capacity_def)
  have nf: "\<not> os_fail (ofstream_open full_disk)" by (simp add: ofstream_open_def)
  have v: "DownloadCtx_write ?ctx ''ab'' = (?ctx1, 2)"
    using write_taken[of ?ctx "''ab''"] nf by (simp add: b)
  have 1: "doDownloadBlobRequest small_blob_env [] url ?ctx ((), []) =
     (\<lparr>body = [], http_status_code = 200, curl_code = CURLE_OK, error_message = [],
       headers = Map.empty\<rparr>, ?ctx1, ((), [FactoryDownload [] url]))" for url
    by (simp add: doDownloadBlobRequest_def small_blob_env_def scenario_env_def v)
  have o: "can_open full_disk ''/blob''" by (simp add: full_disk_def)
  have dg: "to_lower_copy (getHexDigest small_blob_env ''ab'') = hash_str (digest scenario_uri)"
    by code_simp
  have "downloadBlob small_blob_env scenario_uri ''/blob'' 2 full_disk ((), []) =
      (Inr (), ofstream_close full_disk ''/blob'' (out_stream ?ctx1),
       ((), [FactoryDownload [] (composeBlobUrl scenario_uri)]))"
    unfolding downloadBlob_def Let_def using o
    by (simp add: 1 finishDownloadBlob_def isOk_def CURLE_OK_def dg)
  then show ?thesis
    by (simp add: ofstream_close_def filebuf_flush_def medium_takes_def medium_write_def
          full_disk_def)
qed

text \<open>
  C2 asks that no file is left at the path on any failure. The code removes the file
  when the size or the digest does not match (lines 299 and 309), but not where it throws
  before: when the transport fails (line 292) the file that the \<^verbatim>\<open>ofstream\<close> created is
  still there. Here three downloads of 2 expected bytes on an empty disk: through a
  transport that answers 501, through one that delivers 3 bytes, which the callback
  refuses, and through one that delivers 1 byte and loses the connection. Each fails as a
  failed download and leaves a file, empty for the first two, of one byte for the third.
\<close>

theorem downloadBlob_failure_leaves_file:
  "fst (downloadBlob (scenario_env challenge_bearer) scenario_uri ''/blob'' 2 empty_disk ((), []))
     = Inl Blob_DownloadFailed \<and>
   files (fst (snd (downloadBlob (scenario_env challenge_bearer) scenario_uri ''/blob'' 2 empty_disk ((), []))))
     ''/blob'' = Some [] \<and>
   fst (downloadBlob oversize_env scenario_uri ''/blob'' 2 empty_disk ((), []))
     = Inl Blob_DownloadFailed \<and>
   files (fst (snd (downloadBlob oversize_env scenario_uri ''/blob'' 2 empty_disk ((), []))))
     ''/blob'' = Some [] \<and>
   fst (downloadBlob dropped_env scenario_uri ''/blob'' 2 empty_disk ((), []))
     = Inl Blob_DownloadFailed \<and>
   files (fst (snd (downloadBlob dropped_env scenario_uri ''/blob'' 2 empty_disk ((), []))))
     ''/blob'' = Some ''a'' \<and>
   files empty_disk ''/blob'' = None"
proof -
  let ?ctx = "\<lparr>out_stream = ofstream_open empty_disk, hasher = [], expected_size = 2,
               written_size = 0, received_size = 0\<rparr>"
  let ?ctx1 = "\<lparr>out_stream = \<lparr>os_data = [], os_pos = 0, os_buf = ''a'', os_fail = False, os_room = 100\<rparr>,
                hasher = ''a'', expected_size = 2, written_size = 1, received_size = 1\<rparr>"
  have w: "DownloadCtx_write ?ctx ''abc'' = (?ctx\<lparr>received_size := 3\<rparr>, 4)"
    using write_rejects[of ?ctx "''abc''"] by simp
  have s: "ostream_write (ofstream_open empty_disk) ''a'' =
      \<lparr>os_data = [], os_pos = 0, os_buf = ''a'', os_fail = False, os_room = 100\<rparr>"
    by (simp add: ostream_write_def ofstream_open_def empty_disk_def filebuf_chunk_def
          filebuf_capacity_def)
  have nf: "\<not> os_fail (ofstream_open empty_disk)" by (simp add: ofstream_open_def)
  have v: "DownloadCtx_write ?ctx ''a'' = (?ctx1, 1)"
    using write_taken[of ?ctx "''a''"] nf by (simp add: s)
  have 1: "doDownloadBlobRequest (scenario_env challenge_bearer) [] url ?ctx ((), []) =
     (\<lparr>body = [], http_status_code = 501, curl_code = CURLE_OK, error_message = [],
       headers = Map.empty\<rparr>, ?ctx, ((), [FactoryDownload [] url]))" for url
    by (simp add: doDownloadBlobRequest_def scenario_env_def scenario_get_def)
  have 2: "doDownloadBlobRequest oversize_env [] url ?ctx ((), []) =
     (\<lparr>body = [], http_status_code = 200, curl_code = 23, error_message = [],
       headers = Map.empty\<rparr>, ?ctx\<lparr>received_size := 3\<rparr>, ((), [FactoryDownload [] url]))" for url
    by (simp add: doDownloadBlobRequest_def oversize_env_def scenario_env_def w)
  have 3: "doDownloadBlobRequest dropped_env [] url ?ctx ((), []) =
     (\<lparr>body = [], http_status_code = 200, curl_code = 18, error_message = [],
       headers = Map.empty\<rparr>, ?ctx1, ((), [FactoryDownload [] url]))" for url
    by (simp add: doDownloadBlobRequest_def dropped_env_def scenario_env_def v)
  have o: "can_open empty_disk ''/blob''" by (simp add: empty_disk_def)
  have a: "downloadBlob (scenario_env challenge_bearer) scenario_uri ''/blob'' 2 empty_disk ((), []) =
      (Inl Blob_DownloadFailed, ofstream_close empty_disk ''/blob'' (ofstream_open empty_disk),
       ((), [FactoryDownload [] (composeBlobUrl scenario_uri)]))"
    unfolding downloadBlob_def Let_def using o
    by (simp add: 1 finishDownloadBlob_def isOk_def)
  have b: "downloadBlob oversize_env scenario_uri ''/blob'' 2 empty_disk ((), []) =
      (Inl Blob_DownloadFailed, ofstream_close empty_disk ''/blob'' (ofstream_open empty_disk),
       ((), [FactoryDownload [] (composeBlobUrl scenario_uri)]))"
    unfolding downloadBlob_def Let_def using o
    by (simp add: 2 finishDownloadBlob_def isOk_def CURLE_OK_def)
  have c: "downloadBlob dropped_env scenario_uri ''/blob'' 2 empty_disk ((), []) =
      (Inl Blob_DownloadFailed, ofstream_close empty_disk ''/blob'' (out_stream ?ctx1),
       ((), [FactoryDownload [] (composeBlobUrl scenario_uri)]))"
    unfolding downloadBlob_def Let_def using o
    by (simp add: 3 finishDownloadBlob_def isOk_def CURLE_OK_def)
  show ?thesis
    unfolding a b c
    by (simp add: ofstream_close_def ofstream_open_def empty_disk_def filebuf_flush_def
          medium_takes_def medium_write_def)
qed

section \<open>Properties: the target selector\<close>


subsection \<open>std::set insertion\<close>

lemma set_insert_subset: "set (set_insert lt t xs) \<subseteq> insert t (set xs)"
  by (induction xs) auto

lemma set_insert_keeps: "set xs \<subseteq> set (set_insert lt t xs)"
  by (induction xs) auto

lemma set_insert_sorted:
  assumes tr: "\<And>a b c. lt a b \<Longrightarrow> lt b c \<Longrightarrow> lt a c"
  shows "sorted_wrt lt xs \<Longrightarrow> sorted_wrt lt (set_insert lt t xs)"
proof (induction xs)
  case Nil
  then show ?case by simp
next
  case (Cons x xs)
  show ?case
  proof (cases "lt t x")
    case True
    with Cons.prems tr show ?thesis by auto
  next
    case nlt: False
    show ?thesis
    proof (cases "lt x t")
      case True
      from Cons have s: "sorted_wrt lt (set_insert lt t xs)" by simp
      have "\<forall>y \<in> set (set_insert lt t xs). lt x y"
        using set_insert_subset[of lt t xs] True Cons.prems by auto
      with s nlt True show ?thesis by simp
    next
      case False
      with nlt Cons.prems show ?thesis by simp
    qed
  qed
qed

lemma set_insert_new:
  "\<forall>x \<in> set xs. lt t x \<or> lt x t \<Longrightarrow> t \<in> set (set_insert lt t xs)"
  by (induction xs) auto

lemma set_insert_present:
  assumes tr: "\<And>a b c. lt a b \<Longrightarrow> lt b c \<Longrightarrow> lt a c"
  shows "sorted_wrt lt xs \<Longrightarrow> \<exists>x \<in> set xs. \<not> lt t x \<and> \<not> lt x t \<Longrightarrow> set_insert lt t xs = xs"
proof (induction xs)
  case Nil
  then show ?case by simp
next
  case (Cons x xs)
  from Cons.prems(2) obtain e where e: "e \<in> set (x # xs)" "\<not> lt t e" "\<not> lt e t" by blast
  have n1: "\<not> lt t x"
  proof
    assume l: "lt t x"
    show False
    proof (cases "e = x")
      case True
      with l e show ?thesis by simp
    next
      case False
      with e Cons.prems(1) have "lt x e" by auto
      with l tr have "lt t e" by blast
      with e show ?thesis by simp
    qed
  qed
  show ?case
  proof (cases "lt x t")
    case True
    with e have "e \<in> set xs" by auto
    with e Cons have "set_insert lt t xs = xs" by auto
    with n1 True show ?thesis by simp
  next
    case False
    with n1 show ?thesis by simp
  qed
qed

subsection \<open>The candidates\<close>

lemma available_targets_snoc:
  "available_targets vercmp hw_id (ts @ [t]) =
     (if hardwareIds t = [hw_id] then set_insert (target_sort vercmp) t (available_targets vercmp hw_id ts)
      else available_targets vercmp hw_id ts)"
proof -
  have "length (hardwareIds t) = 1 \<and> hw_id = hardwareIds t ! 0 \<longleftrightarrow> hardwareIds t = [hw_id]"
    by (cases "hardwareIds t") auto
  then show ?thesis unfolding available_targets_def by auto
qed

lemma available_targets_Nil: "available_targets vercmp hw_id [] = []"
  by (simp add: available_targets_def)

lemma find_snoc_Some: "List.find P xs = Some x \<Longrightarrow> List.find P (xs @ [y]) = Some x"
  by (induction xs) (auto split: if_splits)

lemma find_snoc_new: "\<forall>x \<in> set xs. \<not> P x \<Longrightarrow> P y \<Longrightarrow> List.find P (xs @ [y]) = Some y"
  by (induction xs) auto

lemma available_targets_invariant:
  assumes swo: "strict_weak_order (target_sort vercmp)"
  shows "sorted_wrt (target_sort vercmp) (available_targets vercmp hw_id ts) \<and>
         (\<forall>c \<in> set (available_targets vercmp hw_id ts).
            c \<in> set ts \<and> hardwareIds c = [hw_id] \<and> first_of_version vercmp hw_id ts c = Some c) \<and>
         (\<forall>t \<in> set ts. hardwareIds t = [hw_id] \<longrightarrow>
            (\<exists>c \<in> set (available_targets vercmp hw_id ts).
               \<not> target_sort vercmp c t \<and> \<not> target_sort vercmp t c))"
proof (induction ts rule: rev_induct)
  case Nil
  show ?case by (simp add: available_targets_Nil)
next
  case (snoc t ts)
  let ?lt = "target_sort vercmp"
  let ?A = "available_targets vercmp hw_id ts"
  from swo have irr: "\<And>a. \<not> ?lt a a"
    and tr: "\<And>a b c. ?lt a b \<Longrightarrow> ?lt b c \<Longrightarrow> ?lt a c"
    and eq: "\<And>a b c. \<not> ?lt a b \<Longrightarrow> \<not> ?lt b a \<Longrightarrow> \<not> ?lt b c \<Longrightarrow> \<not> ?lt c b \<Longrightarrow> \<not> ?lt a c \<and> \<not> ?lt c a"
    unfolding strict_weak_order_def by blast+
  from snoc have s: "sorted_wrt ?lt ?A"
    and m: "\<And>c. c \<in> set ?A \<Longrightarrow> c \<in> set ts \<and> hardwareIds c = [hw_id] \<and> first_of_version vercmp hw_id ts c = Some c"
    and r: "\<And>x. x \<in> set ts \<Longrightarrow> hardwareIds x = [hw_id] \<Longrightarrow> \<exists>c \<in> set ?A. \<not> ?lt c x \<and> \<not> ?lt x c"
    by blast+
  have keep: "first_of_version vercmp hw_id (ts @ [t]) c = Some c" if "c \<in> set ?A" for c
    using m[OF that] unfolding first_of_version_def by (simp add: find_snoc_Some)
  show ?case
  proof (cases "hardwareIds t = [hw_id]")
    case False
    then have a: "available_targets vercmp hw_id (ts @ [t]) = ?A"
      by (simp add: available_targets_snoc)
    show ?thesis unfolding a using s m r keep False by auto
  next
    case el: True
    show ?thesis
    proof (cases "\<exists>x \<in> set ?A. \<not> ?lt t x \<and> \<not> ?lt x t")
      case True
      then have a: "available_targets vercmp hw_id (ts @ [t]) = ?A"
        using set_insert_present[of ?lt ?A t] tr s el by (simp add: available_targets_snoc)
      from True have "\<exists>c \<in> set ?A. \<not> ?lt c t \<and> \<not> ?lt t c" by blast
      then show ?thesis unfolding a using s m r keep by auto
    next
      case False
      let ?A' = "set_insert ?lt t ?A"
      have a: "available_targets vercmp hw_id (ts @ [t]) = ?A'"
        using el by (simp add: available_targets_snoc)
      from False have "t \<in> set ?A'" using set_insert_new[of ?A ?lt t] by blast
      then have st: "set ?A' = insert t (set ?A)"
        using set_insert_subset[of ?lt t ?A] set_insert_keeps[of ?A ?lt t] by blast
      have s': "sorted_wrt ?lt ?A'" using set_insert_sorted[of ?lt ?A t] tr s by blast
      have none: "\<forall>x \<in> set ts. \<not> (hardwareIds x = [hw_id] \<and> \<not> ?lt x t \<and> \<not> ?lt t x)"
      proof (intro ballI notI)
        fix x assume x: "x \<in> set ts" "hardwareIds x = [hw_id] \<and> \<not> ?lt x t \<and> \<not> ?lt t x"
        from r[OF x(1)] x(2) obtain c where c: "c \<in> set ?A" "\<not> ?lt c x" "\<not> ?lt x c" by blast
        with x(2) eq[of c x t] have "\<not> ?lt c t \<and> \<not> ?lt t c" by blast
        with c(1) False show False by blast
      qed
      have ft: "first_of_version vercmp hw_id (ts @ [t]) t = Some t"
        unfolding first_of_version_def using find_snoc_new[OF none] el irr by simp
      have "\<forall>c \<in> set ?A'. c \<in> set (ts @ [t]) \<and> hardwareIds c = [hw_id] \<and>
              first_of_version vercmp hw_id (ts @ [t]) c = Some c"
        unfolding st using m keep ft el by auto
      moreover have "\<forall>x \<in> set (ts @ [t]). hardwareIds x = [hw_id] \<longrightarrow>
            (\<exists>c \<in> set ?A'. \<not> ?lt c x \<and> \<not> ?lt x c)"
        unfolding st using r irr by auto
      ultimately show ?thesis unfolding a using s' by blast
    qed
  qed
qed

subsection \<open>Matching the apps\<close>

lemma match_apps_pending:
  "set pending \<subseteq> set found \<Longrightarrow>
   fst (match_apps as found pending sl) = [] \<longleftrightarrow> set pending \<subseteq> snd ` set as"
proof (induction as arbitrary: pending sl)
  case Nil
  then show ?case by simp
next
  case (Cons a rest)
  show ?case
  proof (cases "pending = []")
    case True
    then show ?thesis by simp
  next
    case ne: False
    show ?thesis
    proof (cases "snd a \<in> set found")
      case False
      with Cons.prems have "snd a \<notin> set pending" by blast
      then have "set pending \<subseteq> snd ` set (a # rest) \<longleftrightarrow> set pending \<subseteq> snd ` set rest" by auto
      with Cons.IH[OF Cons.prems] ne False show ?thesis by simp
    next
      case True
      have "set (removeAll (snd a) pending) \<subseteq> set found" using Cons.prems by auto
      from Cons.IH[OF this] ne True show ?thesis by auto
    qed
  qed
qed

lemma match_apps_shortlist_subset: "set (snd (match_apps as found pending sl)) \<subseteq> set sl"
proof (induction as arbitrary: pending sl)
  case Nil
  then show ?case by simp
next
  case (Cons a rest)
  have "set (snd (match_apps rest found pending (filter (\<lambda>member. fst member \<noteq> fst a) sl)))
          \<subseteq> set sl"
    using Cons.IH[of pending "filter (\<lambda>member. fst member \<noteq> fst a) sl"] by auto
  with Cons.IH[of "removeAll (snd a) pending" sl] show ?case by simp
qed

lemma match_apps_shortlist_keeps:
  "x \<in> set sl \<Longrightarrow> \<forall>a \<in> set as. fst a = fst x \<longrightarrow> snd a \<in> set found \<Longrightarrow>
   x \<in> set (snd (match_apps as found pending sl))"
proof (induction as arbitrary: pending sl)
  case Nil
  then show ?case by simp
next
  case (Cons a rest)
  from Cons.prems(2) have r: "\<forall>a \<in> set rest. fst a = fst x \<longrightarrow> snd a \<in> set found" by simp
  show ?case
  proof (cases "snd a \<in> set found")
    case True
    with Cons.IH[OF Cons.prems(1) r] Cons.prems(1) show ?thesis by simp
  next
    case False
    with Cons.prems(2) have "fst a \<noteq> fst x" by auto
    with Cons.prems(1) have "x \<in> set (filter (\<lambda>member. fst member \<noteq> fst a) sl)" by simp
    from Cons.IH[OF this r] Cons.prems(1) False show ?thesis by simp
  qed
qed

lemma match_apps_shortlist_distinct:
  assumes "distinct (map fst as)" "x \<in> set as" "snd x \<in> set found"
  shows "x \<in> set (snd (match_apps as found pending as))"
proof (rule match_apps_shortlist_keeps[OF assms(2)], intro ballI impI)
  fix a assume "a \<in> set as" "fst a = fst x"
  with assms(1,2) have "a = x" by (auto simp: distinct_map dest: inj_onD)
  with assms(3) show "snd a \<in> set found" by simp
qed

subsection \<open>The walk over the candidates\<close>

lemma find_target_None:
  "find_target cs commits found = None \<longleftrightarrow> (\<forall>c \<in> set cs. \<not> accepts commits found c)"
  by (induction cs) (auto simp: accepts_def Let_def match_apps_pending)

lemma find_target_Some:
  "find_target cs commits found = Some T' \<Longrightarrow>
   \<exists>pre T post. cs = pre @ T # post \<and> (\<forall>c \<in> set pre. \<not> accepts commits found c) \<and>
      accepts commits found T \<and>
      T' = T\<lparr>apps := snd (match_apps (apps T) found found (apps T))\<rparr>"
proof (induction cs)
  case Nil
  then show ?case by simp
next
  case (Cons c cs)
  show ?case
  proof (cases "accepts commits found c")
    case True
    with Cons.prems have "T' = c\<lparr>apps := snd (match_apps (apps c) found found (apps c))\<rparr>"
      by (auto simp: accepts_def Let_def match_apps_pending split: if_splits)
    with True show ?thesis by (intro exI[of _ "[]"] exI[of _ c] exI[of _ cs]) simp
  next
    case False
    with Cons.prems have "find_target cs commits found = Some T'"
      by (auto simp: accepts_def Let_def match_apps_pending split: if_splits)
    from Cons.IH[OF this] obtain pre T post where
      "cs = pre @ T # post" "\<forall>c \<in> set pre. \<not> accepts commits found c" "accepts commits found T"
      "T' = T\<lparr>apps := snd (match_apps (apps T) found found (apps T))\<rparr>" by blast
    with False show ?thesis by (intro exI[of _ "c # pre"] exI[of _ T] exI[of _ post]) simp
  qed
qed

lemma accepts_spec_matches:
  "accepts (fst (parseUpdateContent src)) (snd (parseUpdateContent src)) t \<longleftrightarrow> spec_matches src t"
  by (simp add: accepts_def spec_matches_def)

subsection \<open>The candidates kept and the target selected\<close>

lemma first_of_version_cong:
  assumes swo: "strict_weak_order (target_sort vercmp)"
    and e: "\<not> target_sort vercmp a b" "\<not> target_sort vercmp b a"
  shows "first_of_version vercmp hw_id ts a = first_of_version vercmp hw_id ts b"
proof -
  let ?lt = "target_sort vercmp"
  from swo have eq: "\<And>a b c. \<not> ?lt a b \<Longrightarrow> \<not> ?lt b a \<Longrightarrow> \<not> ?lt b c \<Longrightarrow> \<not> ?lt c b \<Longrightarrow> \<not> ?lt a c \<and> \<not> ?lt c a"
    unfolding strict_weak_order_def by blast
  have "(\<not> ?lt t a \<and> \<not> ?lt a t) = (\<not> ?lt t b \<and> \<not> ?lt b t)" for t
    using eq[of t a b] eq[of t b a] e by blast
  then show ?thesis unfolding first_of_version_def by simp
qed

lemma first_of_version_SomeD:
  "first_of_version vercmp hw_id ts a = Some c \<Longrightarrow>
   c \<in> set ts \<and> hardwareIds c = [hw_id] \<and> \<not> target_sort vercmp c a \<and> \<not> target_sort vercmp a c"
  unfolding first_of_version_def by (auto simp: find_Some_iff)

lemma retained_iff:
  assumes swo: "strict_weak_order (target_sort vercmp)"
  shows "c \<in> set (available_targets vercmp hw_id ts) \<longleftrightarrow> first_of_version vercmp hw_id ts c = Some c"
proof
  assume "c \<in> set (available_targets vercmp hw_id ts)"
  then show "first_of_version vercmp hw_id ts c = Some c"
    using available_targets_invariant[OF swo, of hw_id ts] by blast
next
  assume f: "first_of_version vercmp hw_id ts c = Some c"
  from first_of_version_SomeD[OF f] have "c \<in> set ts" "hardwareIds c = [hw_id]" by auto
  then obtain c' where c': "c' \<in> set (available_targets vercmp hw_id ts)"
    "\<not> target_sort vercmp c' c" "\<not> target_sort vercmp c c'"
    using available_targets_invariant[OF swo, of hw_id ts] by blast
  then have "first_of_version vercmp hw_id ts c' = Some c'"
    using available_targets_invariant[OF swo, of hw_id ts] by blast
  with first_of_version_cong[OF swo c'(2,3), of hw_id ts] f have "c' = c" by simp
  with c'(1) show "c \<in> set (available_targets vercmp hw_id ts)" by simp
qed

text \<open>
  C9. The comparator being a strict weak order, as \<^verbatim>\<open>std::set\<close> asks: when \<open>t1\<close> is the first
  target of the signed list, among those with the device's hardware id alone, with its
  version, and \<open>t2\<close> is another such target of the list whose version compares equal,
  \<open>t1\<close> is kept in the set of candidates and \<open>t2\<close> is not; the selection walks the
  candidates only.
\<close>

theorem available_targets_first_of_version:
  assumes swo: "strict_weak_order (target_sort vercmp)"
    and f: "first_of_version vercmp hw_id ts t1 = Some t1"
    and t2: "t2 \<in> set ts" "spec_candidate hw_id t2"
    and eq: "vercmp (custom_version t1) (custom_version t2) = 0"
            "vercmp (custom_version t2) (custom_version t1) = 0"
    and ne: "t2 \<noteq> t1"
  shows "t1 \<in> set (available_targets vercmp hw_id ts) \<and>
         t2 \<notin> set (available_targets vercmp hw_id ts) \<and>
         (TargetName src = [] \<longrightarrow>
            getTarget vercmp hw_id ts src =
              find_target (available_targets vercmp hw_id ts)
                (fst (parseUpdateContent src)) (snd (parseUpdateContent src)))"
proof -
  from eq have e: "\<not> target_sort vercmp t2 t1" "\<not> target_sort vercmp t1 t2"
    by (simp_all add: target_sort_def)
  have 1: "t1 \<in> set (available_targets vercmp hw_id ts)" using retained_iff[OF swo] f by blast
  have 2: "t2 \<notin> set (available_targets vercmp hw_id ts)"
  proof
    assume "t2 \<in> set (available_targets vercmp hw_id ts)"
    then have "first_of_version vercmp hw_id ts t2 = Some t2" using retained_iff[OF swo] by blast
    with first_of_version_cong[OF swo e, of hw_id ts] f ne show False by simp
  qed
  from 1 2 show ?thesis by (simp add: getTarget_def Let_def)
qed

lemma getTarget_selects:
  assumes swo: "strict_weak_order (target_sort vercmp)" and n: "TargetName src = []"
  shows "(getTarget vercmp hw_id ts src = None \<longleftrightarrow>
            (\<forall>c. first_of_version vercmp hw_id ts c = Some c \<longrightarrow> \<not> spec_matches src c)) \<and>
         (\<forall>T'. getTarget vercmp hw_id ts src = Some T' \<longrightarrow>
            (\<exists>T. first_of_version vercmp hw_id ts T = Some T \<and>
               T \<in> set ts \<and> spec_candidate hw_id T \<and> spec_matches src T \<and>
               T' = T\<lparr>apps := apps T'\<rparr> \<and> set (apps T') \<subseteq> set (apps T) \<and>
               (distinct (map fst (apps T)) \<longrightarrow> set (spec_shortlist src T) \<subseteq> set (apps T')) \<and>
               (\<forall>c. first_of_version vercmp hw_id ts c = Some c \<and> spec_matches src c
                  \<longrightarrow> \<not> target_sort vercmp c T)))"
proof (intro conjI allI impI)
  let ?A = "available_targets vercmp hw_id ts"
  let ?commits = "fst (parseUpdateContent src)" and ?found = "snd (parseUpdateContent src)"
  have g: "getTarget vercmp hw_id ts src = find_target ?A ?commits ?found"
    using n by (simp add: getTarget_def Let_def)
  show "getTarget vercmp hw_id ts src = None \<longleftrightarrow>
            (\<forall>c. first_of_version vercmp hw_id ts c = Some c \<longrightarrow> \<not> spec_matches src c)"
    unfolding g find_target_None accepts_spec_matches using retained_iff[OF swo, of _ hw_id ts] by blast
  fix T' assume "getTarget vercmp hw_id ts src = Some T'"
  then have "find_target ?A ?commits ?found = Some T'" using g by simp
  from find_target_Some[OF this] obtain pre T post where
    A: "?A = pre @ T # post" and pre: "\<forall>c \<in> set pre. \<not> spec_matches src c"
    and T: "spec_matches src T"
    and T': "T' = T\<lparr>apps := snd (match_apps (apps T) ?found ?found (apps T))\<rparr>"
    unfolding accepts_spec_matches by blast
  let ?lt = "target_sort vercmp"
  from swo have irr: "\<And>a. \<not> ?lt a a"
    and tr: "\<And>a b c. ?lt a b \<Longrightarrow> ?lt b c \<Longrightarrow> ?lt a c"
    unfolding strict_weak_order_def by blast+
  from A have TA: "T \<in> set ?A" by simp
  then have fT: "first_of_version vercmp hw_id ts T = Some T" using retained_iff[OF swo] by blast
  from first_of_version_SomeD[OF fT] have el: "T \<in> set ts" "spec_candidate hw_id T"
    by (auto simp: spec_candidate_def)
  have sub: "set (apps T') \<subseteq> set (apps T)"
    unfolding T' using match_apps_shortlist_subset[of "apps T" ?found ?found "apps T"] by simp
  have keep: "set (spec_shortlist src T) \<subseteq> set (apps T')" if "distinct (map fst (apps T))"
    unfolding T' spec_shortlist_def using match_apps_shortlist_distinct[OF that] by auto
  have high: "\<not> ?lt c T" if c: "first_of_version vercmp hw_id ts c = Some c \<and> spec_matches src c" for c
  proof
    assume l: "?lt c T"
    from c have "c \<in> set ?A" using retained_iff[OF swo] by blast
    with A pre c l irr have "c \<in> set post" by auto
    moreover have "sorted_wrt ?lt (pre @ T # post)"
      using available_targets_invariant[OF swo, of hw_id ts] A by simp
    ultimately have "?lt T c" by (auto simp: sorted_wrt_append)
    with l tr irr show False by blast
  qed
  have "T' = T\<lparr>apps := apps T'\<rparr>" unfolding T' by simp
  with fT el T sub keep high
  show "\<exists>T. first_of_version vercmp hw_id ts T = Some T \<and>
               T \<in> set ts \<and> spec_candidate hw_id T \<and> spec_matches src T \<and>
               T' = T\<lparr>apps := apps T'\<rparr> \<and> set (apps T') \<subseteq> set (apps T) \<and>
               (distinct (map fst (apps T)) \<longrightarrow> set (spec_shortlist src T) \<subseteq> set (apps T')) \<and>
               (\<forall>c. first_of_version vercmp hw_id ts c = Some c \<and> spec_matches src c
                  \<longrightarrow> \<not> target_sort vercmp c T)"
    by blast
qed

lemma vercmp_decimal_swo: "strict_weak_order (target_sort vercmp_decimal)"
  unfolding strict_weak_order_def target_sort_def vercmp_decimal_def by auto

theorem available_targets_first_of_version_witness:
  "scenario5_T1 \<in> set (available_targets vercmp_decimal ''hw''
      [scenario5_T1, scenario5_T2\<lparr>custom_version := ''1''\<rparr>]) \<and>
   scenario5_T2\<lparr>custom_version := ''1''\<rparr> \<notin> set (available_targets vercmp_decimal ''hw''
      [scenario5_T1, scenario5_T2\<lparr>custom_version := ''1''\<rparr>]) \<and>
   getTarget vercmp_decimal ''hw'' [scenario5_T1, scenario5_T2\<lparr>custom_version := ''1''\<rparr>] scenario5_src =
     find_target (available_targets vercmp_decimal ''hw''
        [scenario5_T1, scenario5_T2\<lparr>custom_version := ''1''\<rparr>])
       (fst (parseUpdateContent scenario5_src)) (snd (parseUpdateContent scenario5_src))"
proof -
  let ?t2 = "scenario5_T2\<lparr>custom_version := ''1''\<rparr>"
  have f: "first_of_version vercmp_decimal ''hw'' [scenario5_T1, ?t2] scenario5_T1 = Some scenario5_T1"
    by (simp add: first_of_version_def scenario5_T1_def target_sort_def vercmp_decimal_def)
  have e: "vercmp_decimal (custom_version scenario5_T1) (custom_version ?t2) = 0"
    "vercmp_decimal (custom_version ?t2) (custom_version scenario5_T1) = 0"
    by (simp_all add: scenario5_T1_def vercmp_decimal_def)
  have c: "spec_candidate ''hw'' ?t2" by (simp add: spec_candidate_def scenario5_T2_def)
  have n: "?t2 \<noteq> scenario5_T1" by (simp add: scenario5_T1_def scenario5_T2_def)
  have "?t2 \<in> set [scenario5_T1, ?t2]" by simp
  from available_targets_first_of_version[OF vercmp_decimal_swo f this c e n, of scenario5_src]
  show ?thesis by (simp add: scenario5_src_def)
qed

text \<open>
  C1 on scenario 5 of the spec. The selector returns \<^verbatim>\<open>T2\<close> with both apps: once the app
  \<^verbatim>\<open>A\<close> has emptied the list of the apps still to be matched, the loop over the apps of
  the target ends (the \<^verbatim>\<open>break\<close> of line 263) before it reaches \<^verbatim>\<open>B\<close>, which is not on the
  medium and stays in the shortlist. The apps of \<^verbatim>\<open>T2\<close> that are on the medium are \<^verbatim>\<open>A\<close>
  alone.
\<close>

theorem getTarget_scenario5_keeps_B:
  "getTarget vercmp_decimal ''hw'' [scenario5_T1, scenario5_T2] scenario5_src =
     Some (scenario5_T2\<lparr>apps := [(''A'', ''A@d1''), (''B'', ''B@d2'')]\<rparr>) \<and>
   spec_shortlist scenario5_src scenario5_T2 = [(''A'', ''A@d1'')]"
  by (simp add: getTarget_def available_targets_def target_sort_def vercmp_decimal_def
        decimal_value_def parseUpdateContent_def spec_shortlist_def scenario5_T1_def
        scenario5_T2_def scenario5_src_def Let_def)

section \<open>Properties: registerApps\<close>


lemma json_members_JObject: "json_members (JObject m) = Some m"
  by (simp add: json_members_def)

lemma json_lookup_fmupd: "json_lookup (fmupd k v m) k' = (if k = k' then v else json_lookup m k')"
  by (simp add: json_lookup_def)

lemma json_resolve_members:
  "json_resolve j key =
     (case json_members j of None \<Rightarrow> Inl Json_LogicError | Some m \<Rightarrow> Inr (m, json_lookup m key))"
  by (cases j) (simp_all add: json_members_def json_lookup_def)

lemma json_assign3_members:
  "json_assign3 j k1 k2 k3 v =
     (case json_members j of
        None \<Rightarrow> Inl Json_LogicError
      | Some m1 \<Rightarrow>
          (case json_members (json_lookup m1 k1) of
             None \<Rightarrow> Inl Json_LogicError
           | Some m2 \<Rightarrow>
               (case json_members (json_lookup m2 k2) of
                  None \<Rightarrow> Inl Json_LogicError
                | Some m3 \<Rightarrow>
                    Inr (JObject (fmupd k1 (JObject (fmupd k2 (JObject (fmupd k3 v m3)) m2)) m1)))))"
  unfolding json_assign3_def json_resolve_members ebind_def
  by (simp split: option.splits)

lemma json_assign3_overwrite:
  "ebind (json_assign3 j k1 k2 k3 v) (\<lambda>j'. json_assign3 j' k1 k2 k3 v') = json_assign3 j k1 k2 k3 v'"
  unfolding json_assign3_members ebind_def
  by (simp add: json_members_JObject json_lookup_fmupd split: option.splits)

lemma json_assign3_commute:
  assumes "(k2, k3) \<noteq> (k2', k3')"
  shows "ebind (json_assign3 j k1 k2 k3 v) (\<lambda>j'. json_assign3 j' k1 k2' k3' v') =
         ebind (json_assign3 j k1 k2' k3' v') (\<lambda>j'. json_assign3 j' k1 k2 k3 v)"
proof (cases "k2 = k2'")
  case True
  with assms have "k3 \<noteq> k3'" by simp
  then show ?thesis
    unfolding json_assign3_members ebind_def using True
    by (simp add: json_members_JObject json_lookup_fmupd fmupd_reorder_neq split: option.splits)
next
  case False
  then show ?thesis
    unfolding json_assign3_members ebind_def
    by (auto simp add: json_members_JObject json_lookup_fmupd fmupd_reorder_neq split: option.splits)
qed

lemma ebind_assoc: "ebind (ebind m f) g = ebind m (\<lambda>x. ebind (f x) g)"
  by (cases m) (simp_all add: ebind_def)

lemma ebind_Inr: "ebind (Inr x) f = f x"
  by (simp add: ebind_def)

lemma ebind_Inl: "ebind (Inl e) f = Inl e"
  by (simp add: ebind_def)

lemma ebind_ext: "(\<And>x. f x = g x) \<Longrightarrow> ebind m f = ebind m g"
  by (cases m) (simp_all add: ebind_def)

lemma assign_all_Cons_fun:
  "assign_all (e # es) = (\<lambda>j. ebind (json_assign3 j ''Repositories'' (fst e) (fst (snd e)) (JString (snd (snd e)))) (assign_all es))"
  by (rule ext) simp

lemma assign_all_append: "assign_all (es1 @ es2) j = ebind (assign_all es1 j) (assign_all es2)"
proof (induction es1 arbitrary: j)
  case Nil
  then show ?case by (simp add: ebind_Inr)
next
  case (Cons a es1)
  let ?a = "json_assign3 j ''Repositories'' (fst a) (fst (snd a)) (JString (snd (snd a)))"
  have "assign_all ((a # es1) @ es2) j = ebind ?a (assign_all (es1 @ es2))" by simp
  also have "\<dots> = ebind ?a (\<lambda>x. ebind (assign_all es1 x) (assign_all es2))"
    by (rule ebind_ext) (rule Cons.IH)
  also have "\<dots> = ebind (assign_all (a # es1) j) (assign_all es2)" by (simp add: ebind_assoc)
  finally show ?case .
qed

lemma assign_absorbed:
  "entry_key a \<in> entry_key ` set es \<Longrightarrow> ebind (assign1 a j) (assign_all es) = assign_all es j"
proof (induction es arbitrary: j)
  case Nil
  then show ?case by simp
next
  case (Cons b es)
  show ?case
  proof (cases "entry_key a = entry_key b")
    case True
    have "ebind (assign1 a j) (assign_all (b # es)) = ebind (ebind (assign1 a j) (assign1 b)) (assign_all es)"
      by (simp add: ebind_assoc assign_all_Cons_fun)
    also have "ebind (assign1 a j) (assign1 b) = assign1 b j"
      using True json_assign3_overwrite[of j "''Repositories''" "fst a" "fst (snd a)"] by simp
    finally show ?thesis by simp
  next
    case False
    with Cons.prems have in_es: "entry_key a \<in> entry_key ` set es" by auto
    have "ebind (assign1 a j) (assign_all (b # es)) = ebind (ebind (assign1 a j) (assign1 b)) (assign_all es)"
      by (simp add: ebind_assoc assign_all_Cons_fun)
    also have "ebind (assign1 a j) (assign1 b) = ebind (assign1 b j) (assign1 a)"
      using False json_assign3_commute[of "fst a" "fst (snd a)" "fst b" "fst (snd b)"] by simp
    also have "ebind (ebind (assign1 b j) (assign1 a)) (assign_all es) =
               ebind (assign1 b j) (\<lambda>j'. ebind (assign1 a j') (assign_all es))"
      by (simp add: ebind_assoc)
    also have "\<dots> = ebind (assign1 b j) (assign_all es)"
      by (rule ebind_ext) (rule Cons.IH[OF in_es])
    finally show ?thesis by simp
  qed
qed

lemma assign_commutes:
  "entry_key a \<notin> entry_key ` set es \<Longrightarrow>
   ebind (assign1 a j) (assign_all es) = ebind (assign_all es j) (assign1 a)"
proof (induction es arbitrary: j)
  case Nil
  then show ?case by (simp add: ebind_def split: sum.splits)
next
  case (Cons b es)
  then have ne: "entry_key a \<noteq> entry_key b" and notin: "entry_key a \<notin> entry_key ` set es" by auto
  have "ebind (assign1 a j) (assign_all (b # es)) = ebind (ebind (assign1 a j) (assign1 b)) (assign_all es)"
    by (simp add: ebind_assoc assign_all_Cons_fun)
  also have "ebind (assign1 a j) (assign1 b) = ebind (assign1 b j) (assign1 a)"
    using ne json_assign3_commute[of "fst a" "fst (snd a)" "fst b" "fst (snd b)"] by simp
  also have "ebind (ebind (assign1 b j) (assign1 a)) (assign_all es) =
             ebind (assign1 b j) (\<lambda>j'. ebind (assign1 a j') (assign_all es))"
    by (simp add: ebind_assoc)
  also have "\<dots> = ebind (assign1 b j) (\<lambda>j'. ebind (assign_all es j') (assign1 a))"
    by (rule ebind_ext) (rule Cons.IH[OF notin])
  also have "\<dots> = ebind (assign_all (b # es) j) (assign1 a)"
    by (simp add: ebind_assoc)
  finally show ?case .
qed

lemma assign_all_idem: "ebind (assign_all es j) (assign_all es) = assign_all es j"
proof (induction es arbitrary: j)
  case Nil
  then show ?case by (simp add: ebind_Inr)
next
  case (Cons a es)
  have l: "ebind (assign_all (a # es) j) (assign_all (a # es)) =
        ebind (assign1 a j) (\<lambda>j1. ebind (assign_all es j1) (\<lambda>j2. ebind (assign1 a j2) (assign_all es)))"
    by (simp add: ebind_assoc assign_all_Cons_fun)
  have d: "assign_all (a # es) j = ebind (assign1 a j) (assign_all es)" by simp
  show ?case
  proof (cases "entry_key a \<in> entry_key ` set es")
    case True
    have "ebind (assign_all (a # es) j) (assign_all (a # es)) =
          ebind (assign1 a j) (\<lambda>j1. ebind (assign_all es j1) (assign_all es))"
      unfolding l by (intro ebind_ext) (rule assign_absorbed[OF True])
    also have "\<dots> = ebind (assign1 a j) (assign_all es)" by (rule ebind_ext) (rule Cons.IH)
    finally show ?thesis unfolding d .
  next
    case False
    have "ebind (assign_all (a # es) j) (assign_all (a # es)) =
          ebind (assign1 a j) (\<lambda>j1. ebind (assign_all es j1) (\<lambda>j2. ebind (assign_all es j2) (assign1 a)))"
      unfolding l by (intro ebind_ext) (rule assign_commutes[OF False])
    also have "\<dots> = ebind (assign1 a j) (\<lambda>j1. ebind (ebind (assign_all es j1) (assign_all es)) (assign1 a))"
      by (simp add: ebind_assoc)
    also have "\<dots> = ebind (assign1 a j) (\<lambda>j1. ebind (assign_all es j1) (assign1 a))"
      by (simp add: Cons.IH)
    also have "\<dots> = ebind (assign1 a j) (\<lambda>j1. ebind (assign1 a j1) (assign_all es))"
      by (rule ebind_ext) (rule assign_commutes[OF False, symmetric])
    also have "\<dots> = ebind (ebind (assign1 a j) (assign1 a)) (assign_all es)"
      by (simp add: ebind_assoc)
    also have "ebind (assign1 a j) (assign1 a) = assign1 a j"
      using json_assign3_overwrite[of j "''Repositories''" "fst a" "fst (snd a)"] by simp
    finally show ?thesis unfolding d .
  qed
qed

lemma register_services_Cons:
  "register_services store root dir (svc # rest) r =
     ebind (service_entry store root dir svc) (\<lambda>e.
       ebind (json_assign3 r ''Repositories'' (fst e) (fst (snd e)) (JString (snd (snd e))))
         (register_services store root dir rest))"
  unfolding register_services.simps service_entry_def Let_def ebind_assoc
  by (intro ebind_ext) (simp add: ebind_Inr)

lemma ebind_InrE:
  assumes "ebind m f = Inr y"
  obtains x where "m = Inr x" "f x = Inr y"
  using assms by (cases m) (simp_all add: ebind_def)

lemma register_services_entries:
  "register_services store root dir svcs r = Inr r' \<Longrightarrow>
   \<exists>es. \<forall>r0. register_services store root dir svcs r0 = assign_all es r0"
proof (induction svcs arbitrary: r r')
  case Nil
  have "\<forall>r0. register_services store root dir [] r0 = assign_all [] r0" by simp
  then show ?case by blast
next
  case (Cons svc rest)
  from Cons.prems[unfolded register_services_Cons] obtain e where
    e: "service_entry store root dir svc = Inr e"
    and 1: "ebind (json_assign3 r ''Repositories'' (fst e) (fst (snd e)) (JString (snd (snd e))))
              (register_services store root dir rest) = Inr r'"
    by (rule ebind_InrE)
  from 1 obtain r1 where "register_services store root dir rest r1 = Inr r'"
    by (rule ebind_InrE)
  from Cons.IH[OF this] obtain es where
    es: "\<And>r0. register_services store root dir rest r0 = assign_all es r0" by blast
  have "register_services store root dir (svc # rest) r0 = assign_all (e # es) r0" for r0
    unfolding register_services_Cons e ebind_Inr assign_all.simps
    by (rule ebind_ext) (rule es)
  then show ?case by blast
qed

lemma register_apps_entries:
  "register_apps store fad root as r = Inr r' \<Longrightarrow>
   \<exists>es. \<forall>r0. register_apps store fad root as r0 = assign_all es r0"
proof (induction as arbitrary: r r')
  case Nil
  have "\<forall>r0. register_apps store fad root [] r0 = assign_all [] r0" by simp
  then show ?case by blast
next
  case (Cons a rest)
  from Cons.prems obtain app_uri where u: "parseUri (snd a) fad = Inr app_uri"
    and 1: "(let app_dir = path_append (path_append (path_append root ''apps'') (app app_uri))
                       (hash_str (digest app_uri))
       in if \<not> dir_exists store app_dir
          then register_apps store fad root rest r
          else
            (case compose_images store (path_append app_dir ComposeFile) of
               None \<Rightarrow> Inl Compose_Invalid
             | Some services \<Rightarrow>
                 ebind (register_services store root app_dir services r)
                   (register_apps store fad root rest))) = Inr r'"
    unfolding register_apps.simps by (rule ebind_InrE)
  let ?dir = "path_append (path_append (path_append root ''apps'') (app app_uri)) (hash_str (digest app_uri))"
  show ?case
  proof (cases "dir_exists store ?dir")
    case False
    with 1 have "register_apps store fad root rest r = Inr r'" by (simp add: Let_def)
    from Cons.IH[OF this] obtain es where
      es: "\<And>r0. register_apps store fad root rest r0 = assign_all es r0" by blast
    have "register_apps store fad root (a # rest) r0 = assign_all es r0" for r0
      using False es[of r0] by (simp add: u ebind_Inr Let_def)
    then show ?thesis by blast
  next
    case True
    with 1 obtain services where c: "compose_images store (path_append ?dir ComposeFile) = Some services"
      and 2: "ebind (register_services store root ?dir services r) (register_apps store fad root rest) = Inr r'"
      by (auto simp: Let_def split: option.splits)
    from 2 obtain r1 where s: "register_services store root ?dir services r = Inr r1"
      and t: "register_apps store fad root rest r1 = Inr r'" by (rule ebind_InrE)
    from register_services_entries[OF s] obtain es1 where
      es1: "\<And>r0. register_services store root ?dir services r0 = assign_all es1 r0" by blast
    from Cons.IH[OF t] obtain es2 where
      es2: "\<And>r0. register_apps store fad root rest r0 = assign_all es2 r0" by blast
    have "register_apps store fad root (a # rest) r0 = assign_all (es1 @ es2) r0" for r0
    proof -
      have "register_apps store fad root (a # rest) r0 =
            ebind (register_services store root ?dir services r0) (register_apps store fad root rest)"
        using True c by (simp add: u ebind_Inr Let_def)
      also have "\<dots> = ebind (assign_all es1 r0) (assign_all es2)"
        unfolding es1 by (rule ebind_ext) (rule es2)
      finally show ?thesis by (simp add: assign_all_append)
    qed
    then show ?thesis by blast
  qed
qed

lemma register_apps_idem:
  assumes "register_apps store fad root as r = Inr r'"
  shows "register_apps store fad root as r' = Inr r'"
proof -
  from register_apps_entries[OF assms] obtain es where
    es: "\<And>r0. register_apps store fad root as r0 = assign_all es r0" by blast
  from assms have "assign_all es r = Inr r'" using es by simp
  with assign_all_idem[of es r] have "assign_all es r' = Inr r'" by (simp add: ebind_Inr)
  then show ?thesis using es by simp
qed

text \<open>
  C8. When reading back what was written gives the value written, a second run of
  \<open>registerApps\<close> for the same target on the same app store leaves the content of the
  repositories index as the first run left it, and ends as the first run ended.
\<close>

theorem registerApps_idempotent:
  assumes rt: "\<forall>j. read_json (write_json j) = j"
  shows "snd (registerApps read_json write_json store fad target root
                (snd (registerApps read_json write_json store fad target root file))) =
         snd (registerApps read_json write_json store fad target root file) \<and>
         fst (registerApps read_json write_json store fad target root
                (snd (registerApps read_json write_json store fad target root file))) =
         fst (registerApps read_json write_json store fad target root file)"
proof -
  let ?r0 = "case file of Some content \<Rightarrow> read_json content
             | None \<Rightarrow> JObject (fmupd ''Repositories'' (JObject fmempty) fmempty)"
  show ?thesis
  proof (cases "register_apps store fad root (apps target) ?r0")
    case (Inl e)
    then have "registerApps read_json write_json store fad target root file = (Inl e, file)"
      by (simp add: registerApps_def)
    then show ?thesis by simp
  next
    case (Inr r1)
    then have 1: "registerApps read_json write_json store fad target root file = (Inr (), Some (write_json r1))"
      by (simp add: registerApps_def)
    from register_apps_idem[OF Inr] rt
    have "registerApps read_json write_json store fad target root (Some (write_json r1)) =
            (Inr (), Some (write_json r1))"
      by (simp add: registerApps_def)
    with 1 show ?thesis by simp
  qed
qed


lemma scenario6_run:
  "registerApps (\<lambda>content. content) (\<lambda>j. j) scenario6_store True scenario6_target ''/store'' None =
     (Inr (), Some scenario6_index)"
proof -
  have a: "parseUri ''hub/f/app@sha256:aaaaaaaaaaaaaaaaaaaaaaaaaaaaaaaaaaaaaaaaaaaaaaaaaaaaaaaaaaaaaaaa'' True =
      Inr \<lparr>digest = \<lparr>digest_str = ''sha256:aaaaaaaaaaaaaaaaaaaaaaaaaaaaaaaaaaaaaaaaaaaaaaaaaaaaaaaaaaaaaaaa'',
                    hash_str = ''aaaaaaaaaaaaaaaaaaaaaaaaaaaaaaaaaaaaaaaaaaaaaaaaaaaaaaaaaaaaaaaa'',
                    short_hash_str = ''aaaaaaa''\<rparr>,
           app = ''app'', factory = ''f'', repo = ''f/app'', registryHostname = ''hub''\<rparr>"
    by code_simp
  have b: "parseUri ''h/r@sha256:1111111111111111111111111111111111111111111111111111111111111111'' False =
      Inr \<lparr>digest = \<lparr>digest_str = ''sha256:1111111111111111111111111111111111111111111111111111111111111111'',
                    hash_str = ''1111111111111111111111111111111111111111111111111111111111111111'',
                    short_hash_str = ''1111111''\<rparr>,
           app = ''r'', factory = [], repo = ''r'', registryHostname = ''h''\<rparr>"
    by code_simp
  have c: "HashedDigest ''sha256:bbbbbbbbbbbbbbbbbbbbbbbbbbbbbbbbbbbbbbbbbbbbbbbbbbbbbbbbbbbbbbbb'' =
      Inr \<lparr>digest_str = ''sha256:bbbbbbbbbbbbbbbbbbbbbbbbbbbbbbbbbbbbbbbbbbbbbbbbbbbbbbbbbbbbbbbb'',
           hash_str = ''bbbbbbbbbbbbbbbbbbbbbbbbbbbbbbbbbbbbbbbbbbbbbbbbbbbbbbbbbbbbbbbb'',
           short_hash_str = ''bbbbbbb''\<rparr>"
    by code_simp
  have d: "HashedDigest ''sha256:cccccccccccccccccccccccccccccccccccccccccccccccccccccccccccccccc'' =
      Inr \<lparr>digest_str = ''sha256:cccccccccccccccccccccccccccccccccccccccccccccccccccccccccccccccc'',
           hash_str = ''cccccccccccccccccccccccccccccccccccccccccccccccccccccccccccccccc'',
           short_hash_str = ''ccccccc''\<rparr>"
    by code_simp
  have e: "service_entry scenario6_store ''/store''
             ''/store/apps/app/aaaaaaaaaaaaaaaaaaaaaaaaaaaaaaaaaaaaaaaaaaaaaaaaaaaaaaaaaaaaaaaa''
             ''h/r@sha256:1111111111111111111111111111111111111111111111111111111111111111'' =
           Inr (''h/r'', ''h/r@sha256:1111111111111111111111111111111111111111111111111111111111111111'',
                ''sha256:cccccccccccccccccccccccccccccccccccccccccccccccccccccccccccccccc'')"
    unfolding service_entry_def b ebind_Inr Let_def
    by (simp add: path_append_def scenario6_store_def ebind_def c d)
  have s: "register_services scenario6_store ''/store''
             ''/store/apps/app/aaaaaaaaaaaaaaaaaaaaaaaaaaaaaaaaaaaaaaaaaaaaaaaaaaaaaaaaaaaaaaaa''
             [''h/r@sha256:1111111111111111111111111111111111111111111111111111111111111111'']
             (JObject (fmupd ''Repositories'' (JObject fmempty) fmempty)) = Inr scenario6_index"
    unfolding register_services_Cons e ebind_Inr
    by (simp add: json_assign3_members json_members_def json_lookup_def ebind_def scenario6_index_def)
  have "register_apps scenario6_store True ''/store'' (apps scenario6_target)
          (JObject (fmupd ''Repositories'' (JObject fmempty) fmempty)) = Inr scenario6_index"
  proof -
    have p: "path_append (path_append (path_append ''/store'' ''apps'') ''app'')
               ''aaaaaaaaaaaaaaaaaaaaaaaaaaaaaaaaaaaaaaaaaaaaaaaaaaaaaaaaaaaaaaaa'' =
             ''/store/apps/app/aaaaaaaaaaaaaaaaaaaaaaaaaaaaaaaaaaaaaaaaaaaaaaaaaaaaaaaaaaaaaaaa''"
      by (simp add: path_append_def)
    have x: "dir_exists scenario6_store
               ''/store/apps/app/aaaaaaaaaaaaaaaaaaaaaaaaaaaaaaaaaaaaaaaaaaaaaaaaaaaaaaaaaaaaaaaa''"
      by (simp add: scenario6_store_def)
    have ci: "compose_images scenario6_store
               (path_append ''/store/apps/app/aaaaaaaaaaaaaaaaaaaaaaaaaaaaaaaaaaaaaaaaaaaaaaaaaaaaaaaaaaaaaaaa''
                  ComposeFile) =
              Some [''h/r@sha256:1111111111111111111111111111111111111111111111111111111111111111'']"
      by (simp add: scenario6_store_def path_append_def ComposeFile_def)
    show ?thesis
      unfolding scenario6_target_def
      by (simp add: a ebind_Inr Let_def p x ci s del: register_services.simps)
  qed
  then show ?thesis by (simp add: registerApps_def)
qed




theorem registerApps_idempotent_witness:
  "registerApps (\<lambda>content. content) (\<lambda>j. j) scenario6_store True scenario6_target ''/store'' None =
     (Inr (), Some scenario6_index) \<and>
   registerApps (\<lambda>content. content) (\<lambda>j. j) scenario6_store True scenario6_target ''/store''
     (Some scenario6_index) = (Inr (), Some scenario6_index)"
proof -
  let ?run = "registerApps (\<lambda>content. content) (\<lambda>j. j) scenario6_store True scenario6_target ''/store''"
  have 1: "snd (?run None) = Some scenario6_index" "fst (?run None) = Inr ()"
    by (simp_all only: scenario6_run fst_conv snd_conv)
  have "\<forall>j :: json. (\<lambda>content. content) ((\<lambda>j. j) j) = j" by simp
  from registerApps_idempotent[OF this, of scenario6_store True scenario6_target "''/store''" None]
  have "snd (?run (Some scenario6_index)) = Some scenario6_index"
    "fst (?run (Some scenario6_index)) = Inr ()"
    unfolding 1 by blast+
  then have "?run (Some scenario6_index) = (Inr (), Some scenario6_index)"
    by (metis prod.collapse)
  with scenario6_run show ?thesis by blast
qed


section \<open>Properties: run\<close>

lemma run_same_commit:
  assumes "checkImageMetaOffline client c0 = (True, c1)"
    and "getTarget vercmp (primary_ecu_hw_id client c1) (allTargets client c1) src = Some target"
    and "getCurrent_sha256Hash client c1 = sha256Hash target"
    and "download client target (''offline update of '' @ filename target) c1 = (True, c2)"
    and "install client target c2 = (rc, c3)"
  shows "run client vercmp src c0 =
        (if isTargetActive client target c3 then Inr () else Inl Run_TargetNotRunning, c3)"
  unfolding run_def using assms by simp

lemma run_install_result_irrelevant:
  "run (client\<lparr>install := (\<lambda>t c. (rc', snd (install client t c)))\<rparr>) vercmp src c0 =
     run client vercmp src c0"
proof -
  let ?c = "client\<lparr>install := (\<lambda>t c. (rc', snd (install client t c)))\<rparr>"
  have sel: "checkImageMetaOffline ?c = checkImageMetaOffline client"
    "allTargets ?c = allTargets client" "primary_ecu_hw_id ?c = primary_ecu_hw_id client"
    "getCurrent_sha256Hash ?c = getCurrent_sha256Hash client"
    "finalizeInstall ?c = finalizeInstall client" "download ?c = download client"
    "isTargetActive ?c = isTargetActive client"
    "install ?c = (\<lambda>t c. (rc', snd (install client t c)))"
    by simp_all
  show ?thesis unfolding run_def sel snd_conv ..
qed

text \<open>
  C10. When the metadata is valid, the selected target has the booted commit and the
  download succeeds, \<open>run\<close> ends according to \<^verbatim>\<open>isTargetActive\<close> alone, on the state that
  \<^verbatim>\<open>install\<close> leaves, whatever result code \<^verbatim>\<open>install\<close> returned; and on every path, a client
  whose \<^verbatim>\<open>install\<close> returns another result code makes \<open>run\<close> end the same way.
\<close>

theorem run_discards_install_result:
  "(checkImageMetaOffline client c0 = (True, c1) \<and>
    getTarget vercmp (primary_ecu_hw_id client c1) (allTargets client c1) src = Some target \<and>
    getCurrent_sha256Hash client c1 = sha256Hash target \<and>
    download client target (''offline update of '' @ filename target) c1 = (True, c2) \<and>
    install client target c2 = (rc, c3) \<longrightarrow>
      run client vercmp src c0 =
        (if isTargetActive client target c3 then Inr () else Inl Run_TargetNotRunning, c3)) \<and>
   run (client\<lparr>install := (\<lambda>t c. (rc', snd (install client t c)))\<rparr>) vercmp src c0 =
     run client vercmp src c0"
proof (intro conjI impI)
  assume "checkImageMetaOffline client c0 = (True, c1) \<and>
    getTarget vercmp (primary_ecu_hw_id client c1) (allTargets client c1) src = Some target \<and>
    getCurrent_sha256Hash client c1 = sha256Hash target \<and>
    download client target (''offline update of '' @ filename target) c1 = (True, c2) \<and>
    install client target c2 = (rc, c3)"
  then show "run client vercmp src c0 =
        (if isTargetActive client target c3 then Inr () else Inl Run_TargetNotRunning, c3)"
    using run_same_commit[of client c0 c1 vercmp src target c2 rc c3] by blast
next
  show "run (client\<lparr>install := (\<lambda>t c. (rc', snd (install client t c)))\<rparr>) vercmp src c0 =
     run client vercmp src c0"
    by (rule run_install_result_irrelevant)
qed


theorem run_discards_install_result_witness:
  "run (scenario_client kInstallFailed True) vercmp_decimal scenario5_src () = (Inr (), ()) \<and>
   run (scenario_client kInstallFailed False) vercmp_decimal scenario5_src () =
     (Inl Run_TargetNotRunning, ()) \<and>
   run (scenario_client kNeedCompletion True) vercmp_decimal scenario5_src () = (Inr (), ())"
proof -
  let ?T = "scenario5_T2\<lparr>apps := [(''A'', ''A@d1''), (''B'', ''B@d2'')]\<rparr>"
  have g: "getTarget vercmp_decimal ''hw'' [scenario5_T1, scenario5_T2] scenario5_src = Some ?T"
    by (simp add: getTarget_def available_targets_def target_sort_def vercmp_decimal_def
          decimal_value_def parseUpdateContent_def scenario5_T1_def scenario5_T2_def
          scenario5_src_def Let_def)
  have s: "sha256Hash ?T = ''C1''" "filename ?T = ''T2''" by (simp_all add: scenario5_T2_def)
  have c: "checkImageMetaOffline (scenario_client r a) () = (True, ())"
    "primary_ecu_hw_id (scenario_client r a) () = ''hw''"
    "allTargets (scenario_client r a) () = [scenario5_T1, scenario5_T2]"
    "getCurrent_sha256Hash (scenario_client r a) () = ''C1''"
    "download (scenario_client r a) t d () = (True, ())"
    "install (scenario_client r a) t () = (r, ())"
    "isTargetActive (scenario_client r a) t () = a" for r a t d
    by (simp_all add: scenario_client_def)
  show ?thesis
    using run_discards_install_result
            [of "scenario_client kInstallFailed True" "()" "()" vercmp_decimal scenario5_src ?T "()"
                kInstallFailed "()" kOk]
          run_discards_install_result
            [of "scenario_client kInstallFailed False" "()" "()" vercmp_decimal scenario5_src ?T "()"
                kInstallFailed "()" kOk]
          run_discards_install_result
            [of "scenario_client kNeedCompletion True" "()" "()" vercmp_decimal scenario5_src ?T "()"
                kNeedCompletion "()" kOk]
    unfolding c g s by simp
qed

end
